theory Spec2Isabelle
  imports Main "HOL-Library.Word"
begin

unbundle bit_operations_syntax

section \<open>The remote tape client of paxlib (tarbuf.c, second part: rtapelib)\<close>

text \<open>
  The client keeps two tables of pipe descriptors, indexed by the connection handle, and
  talks to the remote helper through them.  The model keeps the two tables and \<open>errno\<close>
  as the C file does, and adds the part of the kernel the code can observe: for every
  open descriptor what a read will deliver, or what has been written to it.

  A \<open>string\<close> stands for the bytes of a C string before its terminating NUL.
  \<open>long int\<close>, \<open>idx_t\<close>, \<open>ptrdiff_t\<close> and \<open>off_t\<close> are 64 bit wide and are
  modelled as \<open>int\<close>, with the saturation of \<open>strtol\<close> and the truncation to a 32 bit
  \<open>int\<close> written out where the code converts.  The build is the default one
  (\<open>WITH_REXEC\<close> is not defined).
\<close>

subsection \<open>Constants\<close>

definition NL :: char where "NL = CHR 0x0A"
definition NUL :: char where "NUL = CHR 0x00"

definition COMMAND_BUFFER_SIZE :: nat where "COMMAND_BUFFER_SIZE = 64"
definition MAXUNIT :: nat where "MAXUNIT = 4"
definition EXIT_ON_EXEC_ERROR :: int where "EXIT_ON_EXEC_ERROR = 128"

text \<open>The values of \<open>errno.h\<close> on GNU/Linux.\<close>

definition ENOENT :: int where "ENOENT = 2"
definition EIO :: int where "EIO = 5"
definition EBADF :: int where "EBADF = 9"
definition EMFILE :: int where "EMFILE = 24"
definition EPIPE :: int where "EPIPE = 32"
definition ERANGE :: int where "ERANGE = 34"
definition EOPNOTSUPP :: int where "EOPNOTSUPP = 95"

definition LONG_MAX :: int where "LONG_MAX = 2 ^ 63 - 1"
definition LONG_MIN :: int where "LONG_MIN = - (2 ^ 63)"

subsection \<open>State: the descriptor tables, errno, and the descriptors of the kernel\<close>

text \<open>
  What the next reads of a descriptor return: \<open>Data bs\<close> is a run of bytes that has
  arrived (a read takes at most that many; \<open>Data []\<close> is a read that returns 0, end of
  file), \<open>Fail e\<close> is a read that fails with errno \<open>e\<close>.  After the last event every
  read returns 0.
\<close>

datatype rd_event = Data "char list" | Fail int

text \<open>
  A descriptor is the read end of a pipe, with the events to come, or the write end of
  a pipe, with the bytes written so far and the number of bytes the other side will
  still take (\<open>None\<close>: any number).
\<close>

datatype chan = RdEnd "rd_event list" | WrEnd "char list" "nat option"

record rmt_state =
  from_remote :: "(int \<times> int) list"
  to_remote :: "(int \<times> int) list"
  errno :: int
  fds :: "int \<Rightarrow> chan option"

definition read_side :: "rmt_state \<Rightarrow> nat \<Rightarrow> int" where
  "read_side s handle = fst (from_remote s ! handle)"

definition write_side :: "rmt_state \<Rightarrow> nat \<Rightarrow> int" where
  "write_side s handle = snd (to_remote s ! handle)"

text \<open>The initialiser of the two tables: every entry is \<open>-1\<close>.\<close>

definition init_state :: rmt_state where
  "init_state = \<lparr> from_remote = replicate MAXUNIT (-1, -1),
                  to_remote = replicate MAXUNIT (-1, -1),
                  errno = 0, fds = (\<lambda>fd. None) \<rparr>"

subsection \<open>The system calls the client uses\<close>

text \<open>
  \<open>safe_read fd count\<close> returns the number of bytes read (0 at end of file, \<open>-1\<close> on
  error) and the bytes.  A descriptor that is not an open read end fails with \<open>EBADF\<close>.
\<close>

definition safe_read :: "rmt_state \<Rightarrow> int \<Rightarrow> nat \<Rightarrow> int \<times> char list \<times> rmt_state" where
  "safe_read s fd count =
     (case fds s fd of
        Some (RdEnd evs) \<Rightarrow>
          (case evs of
             [] \<Rightarrow> (0, [], s)
           | Data bs # rest \<Rightarrow>
               if length bs \<le> count
               then (int (length bs), bs, s\<lparr>fds := (fds s)(fd \<mapsto> RdEnd rest)\<rparr>)
               else (int count, take count bs,
                     s\<lparr>fds := (fds s)(fd \<mapsto> RdEnd (Data (drop count bs) # rest))\<rparr>)
           | Fail e # rest \<Rightarrow> (-1, [], s\<lparr>errno := e, fds := (fds s)(fd \<mapsto> RdEnd rest)\<rparr>))
      | _ \<Rightarrow> (-1, [], s\<lparr>errno := EBADF\<rparr>))"

text \<open>
  \<open>full_write fd buf\<close> writes until everything is out or a write fails, and returns
  the number of bytes written.
\<close>

definition full_write :: "rmt_state \<Rightarrow> int \<Rightarrow> char list \<Rightarrow> nat \<times> rmt_state" where
  "full_write s fd buf =
     (if buf = [] then (0, s)
      else case fds s fd of
        Some (WrEnd sent room) \<Rightarrow>
          (let n = (case room of None \<Rightarrow> length buf | Some r \<Rightarrow> min r (length buf))
           in (n, s\<lparr>errno := (if n < length buf then EPIPE else errno s),
                    fds := (fds s)(fd \<mapsto> WrEnd (sent @ take n buf)
                                               (map_option (\<lambda>r. r - n) room))\<rparr>))
      | _ \<Rightarrow> (0, s\<lparr>errno := EBADF\<rparr>))"

definition close_fd :: "rmt_state \<Rightarrow> int \<Rightarrow> rmt_state" where
  "close_fd s fd =
     (if fds s fd = None then s\<lparr>errno := EBADF\<rparr>
      else s\<lparr>fds := (fds s)(fd := None)\<rparr>)"

subsection \<open>Shutdown and command transmission\<close>

definition rmt_shutdown :: "rmt_state \<Rightarrow> nat \<Rightarrow> int \<Rightarrow> rmt_state" where
  "rmt_shutdown s handle errno_value =
     (let s1 = close_fd s (read_side s handle);
          s2 = close_fd s1 (write_side s1 handle)
      in s2\<lparr>from_remote := (from_remote s2)[handle := (-1, snd (from_remote s2 ! handle))],
            to_remote := (to_remote s2)[handle := (fst (to_remote s2 ! handle), -1)],
            errno := errno_value\<rparr>)"

definition do_command :: "rmt_state \<Rightarrow> nat \<Rightarrow> string \<Rightarrow> int \<times> rmt_state" where
  "do_command s handle buffer =
     (case full_write s (write_side s handle) buffer of
        (written, s1) \<Rightarrow>
          if written = length buffer then (0, s1)
          else (-1, rmt_shutdown s1 handle EIO))"

subsection \<open>Decimal numbers: \<open>atol\<close>, \<open>atoi\<close>, and \<open>sprintf\<close> with \<open>%d\<close>\<close>

definition isspace :: "char \<Rightarrow> bool" where
  "isspace c = (c = CHR '' '' \<or> (9 \<le> (of_char c :: nat) \<and> (of_char c :: nat) \<le> 13))"

definition isdigit :: "char \<Rightarrow> bool" where
  "isdigit c = (48 \<le> (of_char c :: nat) \<and> (of_char c :: nat) \<le> 57)"

definition digit_val :: "char \<Rightarrow> int" where
  "digit_val c = int (of_char c) - 48"

fun digits_value :: "int \<Rightarrow> string \<Rightarrow> int" where
  "digits_value acc [] = acc"
| "digits_value acc (c # cs) =
     (if isdigit c then digits_value (acc * 10 + digit_val c) cs else acc)"

text \<open>
  The number a decimal prefix denotes, before it is brought into range: white space,
  an optional sign, digits.
\<close>

definition decimal_value :: "string \<Rightarrow> int" where
  "decimal_value str =
     (case dropWhile isspace str of
        [] \<Rightarrow> 0
      | c # cs \<Rightarrow>
          if c = CHR ''-'' then - digits_value 0 cs
          else if c = CHR ''+'' then digits_value 0 cs
          else digits_value 0 (c # cs))"

text \<open>
  \<open>atol\<close> is \<open>strtol\<close> in base 10, as in the GNU C library: a value out of the range
  of \<open>long\<close> is replaced by the nearest bound, and then errno is set to \<open>ERANGE\<close>;
  otherwise errno is left alone.  \<open>atoi\<close> converts the result of \<open>strtol\<close> to a 32 bit
  \<open>int\<close>.
\<close>

definition atol :: "rmt_state \<Rightarrow> string \<Rightarrow> int \<times> rmt_state" where
  "atol s str =
     (let v = decimal_value str
      in if v < LONG_MIN then (LONG_MIN, s\<lparr>errno := ERANGE\<rparr>)
         else if LONG_MAX < v then (LONG_MAX, s\<lparr>errno := ERANGE\<rparr>)
         else (v, s))"

definition atoi :: "rmt_state \<Rightarrow> string \<Rightarrow> int \<times> rmt_state" where
  "atoi s str = (case atol s str of (v, s1) \<Rightarrow> (signed_take_bit 31 v, s1))"

definition digit_char :: "nat \<Rightarrow> char" where
  "digit_char d = ''0123456789'' ! d"

fun dec_nat :: "nat \<Rightarrow> string" where
  "dec_nat n = (if n < 10 then [digit_char n] else dec_nat (n div 10) @ [digit_char (n mod 10)])"

declare dec_nat.simps [simp del]

definition dec_int :: "int \<Rightarrow> string" where
  "dec_int i = (if i < 0 then CHR ''-'' # dec_nat (nat (- i)) else dec_nat (nat i))"

subsection \<open>Reading the status reply\<close>

definition cstr :: "char list \<Rightarrow> string" where
  "cstr buf = takeWhile (\<lambda>c. c \<noteq> NUL) buf"

text \<open>
  The first loop of \<open>get_status_string\<close>: \<open>buf\<close> holds the bytes stored so far, the
  cursor is at \<open>length buf\<close>.  The result is the line without its newline.
\<close>

function read_reply_line :: "rmt_state \<Rightarrow> nat \<Rightarrow> char list \<Rightarrow> char list option \<times> rmt_state" where
  "read_reply_line s handle buf =
     (if COMMAND_BUFFER_SIZE \<le> length buf then (None, rmt_shutdown s handle EIO)
      else case safe_read s (read_side s handle) 1 of
        (rlen, bytes, s1) \<Rightarrow>
          if rlen \<noteq> 1 then (None, rmt_shutdown s1 handle EIO)
          else if hd bytes = NL then (Some buf, s1)
          else read_reply_line s1 handle (buf @ [hd bytes]))"
  by pat_completeness auto
termination
  by (relation "measure (\<lambda>(s, handle, buf). COMMAND_BUFFER_SIZE - length buf)") auto

declare read_reply_line.simps [simp del]

text \<open>The number of bytes still to come on a descriptor.\<close>

fun event_bytes :: "rd_event \<Rightarrow> nat" where
  "event_bytes (Data bs) = length bs"
| "event_bytes (Fail e) = 0"

definition pending :: "rmt_state \<Rightarrow> int \<Rightarrow> nat" where
  "pending s fd =
     (case fds s fd of Some (RdEnd evs) \<Rightarrow> sum_list (map event_bytes evs) | _ \<Rightarrow> 0)"

lemma safe_read_tables:
  "safe_read s fd n = (rlen, bytes, s1) \<Longrightarrow>
     from_remote s1 = from_remote s \<and> to_remote s1 = to_remote s"
  by (auto simp: safe_read_def split: option.splits chan.splits list.splits rd_event.splits if_splits)

lemma safe_read_pending:
  "safe_read s fd n = (rlen, bytes, s1) \<Longrightarrow> 0 < rlen \<Longrightarrow> pending s1 fd < pending s fd"
  by (auto simp: safe_read_def pending_def
           split: option.splits chan.splits list.splits rd_event.splits if_splits)

text \<open>
  The second loop of \<open>get_status_string\<close>, under the comment "Skip the error message
  line": read one byte at a time, \<open>while (character == '\n')\<close>.  The result says
  whether every read succeeded.
\<close>

function skip_message :: "rmt_state \<Rightarrow> nat \<Rightarrow> bool \<times> rmt_state" where
  "skip_message s handle =
     (case safe_read s (read_side s handle) 1 of
        (rlen, bytes, s1) \<Rightarrow>
          if rlen \<noteq> 1 then (False, rmt_shutdown s1 handle EIO)
          else if hd bytes = NL then skip_message s1 handle
          else (True, s1))"
  by pat_completeness auto
termination
proof (relation "measure (\<lambda>(s, handle). pending s (read_side s handle))", simp, clarsimp)
  fix s :: rmt_state and handle :: nat and bytes s1
  assume "(1, bytes, s1) = safe_read s (read_side s handle) (Suc 0)"
  then have r: "safe_read s (read_side s handle) (Suc 0) = (1, bytes, s1)"
    by simp
  from safe_read_tables [OF r] have "read_side s1 handle = read_side s handle"
    by (simp add: read_side_def)
  with safe_read_pending [OF r]
  show "pending s1 (read_side s1 handle) < pending s (read_side s handle)"
    by simp
qed

declare skip_message.simps [simp del]

definition get_status_string :: "rmt_state \<Rightarrow> nat \<Rightarrow> string option \<times> rmt_state" where
  "get_status_string s handle =
     (case read_reply_line s handle [] of
        (None, s1) \<Rightarrow> (None, s1)
      | (Some line, s1) \<Rightarrow>
          (case dropWhile (\<lambda>c. c = CHR '' '') (cstr line) of
             [] \<Rightarrow> (None, rmt_shutdown s1 handle EIO)
           | c # rest \<Rightarrow>
               if c = CHR ''E'' \<or> c = CHR ''F'' then
                 (case skip_message s1 handle of
                    (False, s2) \<Rightarrow> (None, s2)
                  | (True, s2) \<Rightarrow>
                      (case atoi s2 rest of
                         (err, s2') \<Rightarrow>
                           (let s3 = s2'\<lparr>errno := (if err \<le> 0 then EIO else err)\<rparr>
                            in (None, if c = CHR ''F'' then rmt_shutdown s3 handle (errno s3)
                                      else s3))))
               else if c \<noteq> CHR ''A'' then (None, rmt_shutdown s1 handle EIO)
               else (Some rest, s1)))"

definition get_status :: "rmt_state \<Rightarrow> nat \<Rightarrow> int \<times> rmt_state" where
  "get_status s handle =
     (case get_status_string s handle of
        (Some status, s1) \<Rightarrow>
          (case atol s1 status of
             (result, s2) \<Rightarrow> if 0 \<le> result then (result, s2) else (-1, s2\<lparr>errno := EIO\<rparr>))
      | (None, s1) \<Rightarrow> (-1, s1))"

text \<open>
  \<open>get_status_off\<close> parses the status with \<open>strtoimax\<close>: \<open>errno\<close> is cleared, set to
  \<open>ERANGE\<close> when the value is out of range, and the end pointer stays at the start when
  there is no digit.  \<open>off_t\<close> is as wide as \<open>intmax_t\<close> here, so the checked addition
  of 0 is written out with the same bounds.
\<close>

definition has_digits :: "string \<Rightarrow> bool" where
  "has_digits str =
     (case dropWhile isspace str of
        [] \<Rightarrow> False
      | c # cs \<Rightarrow>
          if c = CHR ''-'' \<or> c = CHR ''+'' then (case cs of [] \<Rightarrow> False | d # _ \<Rightarrow> isdigit d)
          else isdigit c)"

definition get_status_off :: "rmt_state \<Rightarrow> nat \<Rightarrow> int \<times> rmt_state" where
  "get_status_off s handle =
     (case get_status_string s handle of
        (None, s1) \<Rightarrow> (-1, s1)
      | (Some status, s1) \<Rightarrow>
          (let v = decimal_value status;
               s2 = s1\<lparr>errno := (if v < LONG_MIN \<or> LONG_MAX < v then ERANGE else 0)\<rparr>;
               count = max LONG_MIN (min LONG_MAX v)
           in if errno s2 \<noteq> 0 \<or> \<not> has_digits status
                 \<or> count + 0 < LONG_MIN \<or> LONG_MAX < count + 0
              then (-1, s2) else (count + 0, s2)))"

subsection \<open>Close, read and write\<close>

text \<open>\<open>rmt_close\<close> returns an \<open>int\<close>: the \<open>long\<close> status is converted.\<close>

definition rmt_close :: "rmt_state \<Rightarrow> nat \<Rightarrow> int \<times> rmt_state" where
  "rmt_close s handle =
     (case do_command s handle (''C'' @ [NL]) of
        (r, s1) \<Rightarrow>
          if r = -1 then (-1, s1)
          else case get_status s1 handle of
            (status, s2) \<Rightarrow> (signed_take_bit 31 status, rmt_shutdown s2 handle (errno s2)))"

text \<open>Writing \<open>bytes\<close> into a buffer at offset \<open>off\<close>.\<close>

definition store :: "char list \<Rightarrow> nat \<Rightarrow> char list \<Rightarrow> char list" where
  "store buffer off bytes = take off buffer @ bytes @ drop (off + length bytes) buffer"

text \<open>The payload loop of \<open>rmt_read\<close>; the result says whether every read succeeded.\<close>

function read_payload ::
  "rmt_state \<Rightarrow> nat \<Rightarrow> char list \<Rightarrow> int \<Rightarrow> int \<Rightarrow> bool \<times> char list \<times> rmt_state" where
  "read_payload s handle buffer status counter =
     (if counter < status then
        (case safe_read s (read_side s handle) (nat (status - counter)) of
           (rlen, bytes, s1) \<Rightarrow>
             if rlen \<le> 0 then (False, buffer, rmt_shutdown s1 handle EIO)
             else read_payload s1 handle (store buffer (nat counter) bytes) status (counter + rlen))
      else (True, buffer, s))"
  by pat_completeness auto
termination
  by (relation "measure (\<lambda>(s, handle, buffer, status, counter). nat (status - counter))") auto

declare read_payload.simps [simp del]

text \<open>
  \<open>rmt_read\<close> returns the status, the buffer and the state.  The caller's buffer has
  room for \<open>len\<close> bytes.
\<close>

definition rmt_read :: "rmt_state \<Rightarrow> nat \<Rightarrow> char list \<Rightarrow> int \<Rightarrow> int \<times> char list \<times> rmt_state" where
  "rmt_read s handle buffer len =
     (case do_command s handle (''R'' @ dec_int len @ [NL]) of
        (rc, s1) \<Rightarrow>
          if rc < 0 then (rc, buffer, s1)
          else case get_status s1 handle of
            (status, s2) \<Rightarrow>
              if \<not> (0 \<le> status \<and> status \<le> len)
              then (-1, buffer, rmt_shutdown s2 handle EIO)
              else case read_payload s2 handle buffer status 0 of
                (ok, buffer', s3) \<Rightarrow> if ok then (status, buffer', s3) else (-1, buffer', s3))"

text \<open>\<open>rmt_write\<close> sends the first \<open>len\<close> bytes of the buffer.\<close>

definition rmt_write :: "rmt_state \<Rightarrow> nat \<Rightarrow> char list \<Rightarrow> int \<Rightarrow> int \<times> rmt_state" where
  "rmt_write s handle buffer len =
     (case do_command s handle (''W'' @ dec_int len @ [NL]) of
        (rc, s1) \<Rightarrow>
          if rc < 0 then (0, s1)
          else case full_write s1 (write_side s1 handle) (take (nat len) buffer) of
            (written, s2) \<Rightarrow>
              if int written = len then
                (case get_status s2 handle of
                   (r, s3) \<Rightarrow>
                     if r < 0 then (0, s3)
                     else if r = len then (len, s3)
                     else (r, rmt_shutdown s3 handle EIO))
              else (int written, rmt_shutdown s2 handle EIO))"

subsection \<open>Seek\<close>

text \<open>
  How a call ends when it does not return: \<open>abort ()\<close>, \<open>error\<close> with an exit status,
  the child of \<open>fork\<close> (which executes the remote shell and never returns into the
  caller), or a violated \<open>assume\<close>, after which the behaviour is undefined.
\<close>

datatype stop = Abort | Exit int | Child_process | Assumption_violated

definition SEEK_SET :: int where "SEEK_SET = 0"
definition SEEK_CUR :: int where "SEEK_CUR = 1"
definition SEEK_END :: int where "SEEK_END = 2"

definition seek_whence :: "int \<Rightarrow> stop + int" where
  "seek_whence whence =
     (if whence = SEEK_SET then Inr 0
      else if whence = SEEK_CUR then Inr 1
      else if whence = SEEK_END then Inr 2
      else Inl Abort)"

text \<open>
  When \<open>rmt_lseek\<close> does not return, the result is how it stopped and the state in
  which it stopped, which shows what had been done by then.
\<close>

definition rmt_lseek ::
  "rmt_state \<Rightarrow> nat \<Rightarrow> int \<Rightarrow> int \<Rightarrow> stop \<times> rmt_state + int \<times> rmt_state" where
  "rmt_lseek s handle offset whence =
     (case seek_whence whence of
        Inl stop \<Rightarrow> Inl (stop, s)
      | Inr w \<Rightarrow>
          (case do_command s handle (''L'' @ dec_int w @ [NL] @ dec_int offset @ [NL]) of
             (r, s1) \<Rightarrow> if r = -1 then Inr (-1, s1) else Inr (get_status_off s1 handle)))"

subsection \<open>Ioctl\<close>

text \<open>
  \<open>struct mtget\<close> and \<open>MTIO_CHECK_FIELD\<close> come from the system headers: the size of the
  structure and the value of the check field, read from the bytes of the structure, are
  parameters.
\<close>

record mtget_layout =
  mtget_size :: nat
  check_field :: "char list \<Rightarrow> int"

text \<open>
  The operation with its argument: \<open>struct mtop\<close> holds \<open>mt_op\<close> and \<open>mt_count\<close>,
  \<open>struct mtget\<close> is the caller's buffer.
\<close>

datatype ioctl_request = MTIOCTOP int int | MTIOCGET "char list" | Other_operation nat

function read_mtget ::
  "rmt_state \<Rightarrow> nat \<Rightarrow> char list \<Rightarrow> nat \<Rightarrow> int \<Rightarrow> bool \<times> char list \<times> rmt_state" where
  "read_mtget s handle buf p status =
     (if 0 < status then
        (case safe_read s (read_side s handle) (nat status) of
           (rlen, bytes, s1) \<Rightarrow>
             if rlen \<le> 0 then (False, buf, rmt_shutdown s1 handle EIO)
             else read_mtget s1 handle (store buf p bytes) (p + nat rlen) (status - rlen))
      else (True, buf, s))"
  by pat_completeness auto
termination
  by (relation "measure (\<lambda>(s, handle, buf, p, status). nat status)") auto

declare read_mtget.simps [simp del]

function swap_bytes :: "nat \<Rightarrow> nat \<Rightarrow> char list \<Rightarrow> char list" where
  "swap_bytes counter sz buf =
     (if counter < sz
      then swap_bytes (counter + 2) sz
             (buf[counter := buf ! (counter + 1), counter + 1 := buf ! counter])
      else buf)"
  by pat_completeness auto
termination
  by (relation "measure (\<lambda>(counter, sz, buf). sz - counter)") auto

declare swap_bytes.simps [simp del]

definition rmt_ioctl ::
  "mtget_layout \<Rightarrow> rmt_state \<Rightarrow> nat \<Rightarrow> ioctl_request \<Rightarrow> int \<times> ioctl_request \<times> rmt_state" where
  "rmt_ioctl lay s handle request =
     (case request of
        Other_operation n \<Rightarrow> (-1, request, s\<lparr>errno := EOPNOTSUPP\<rparr>)
      | MTIOCTOP mt_op mt_count \<Rightarrow>
          (case do_command s handle (''I'' @ dec_int mt_op @ [NL] @ dec_int mt_count @ [NL]) of
             (r, s1) \<Rightarrow>
               if r = -1 then (-1, request, s1)
               else case get_status s1 handle of
                 (status, s2) \<Rightarrow> (signed_take_bit 31 status, request, s2))
      | MTIOCGET buf \<Rightarrow>
          (case do_command s handle ''S'' of
             (r, s1) \<Rightarrow>
               if r = -1 then (-1, request, s1)
               else case get_status s1 handle of
                 (status, s2) \<Rightarrow>
                   if status = -1 then (-1, request, s2)
                   else if status \<noteq> int (mtget_size lay)
                   then (-1, request, rmt_shutdown s2 handle EIO)
                   else case read_mtget s2 handle buf 0 status of
                     (ok, buf', s3) \<Rightarrow>
                       if \<not> ok then (-1, MTIOCGET buf', s3)
                       else if check_field lay buf' < 256 then (0, MTIOCGET buf', s3)
                       else (0, MTIOCGET (swap_bytes 0 (mtget_size lay) buf'), s3)))"

subsection \<open>Encoding the open flags\<close>

text \<open>
  The flag constants come from \<open>fcntl.h\<close> and are parameters.  The flags under
  \<open>#ifdef\<close> may be missing.
\<close>

record oflag_consts =
  O_ACCMODE :: int
  O_RDONLY :: int
  O_RDWR :: int
  O_WRONLY :: int
  O_APPEND :: "int option"
  O_CREAT :: int
  O_DSYNC :: "int option"
  O_EXCL :: int
  O_LARGEFILE :: "int option"
  O_NOCTTY :: "int option"
  O_NONBLOCK :: int
  O_RSYNC :: "int option"
  O_SYNC :: "int option"
  O_TRUNC :: int

text \<open>\<open>if (oflags & FLAG) strcat (buf, name)\<close>, for a flag that may be missing.\<close>

definition strcat_if :: "int \<Rightarrow> int option \<Rightarrow> string \<Rightarrow> string \<Rightarrow> string" where
  "strcat_if oflags flag name buf =
     (case flag of
        None \<Rightarrow> buf
      | Some m \<Rightarrow> if oflags AND m \<noteq> 0 then buf @ name else buf)"

definition encode_oflags :: "oflag_consts \<Rightarrow> int \<Rightarrow> stop + string" where
  "encode_oflags k oflags =
     (let buf = dec_int oflags @ '' '';
          mode = oflags AND O_ACCMODE k
      in case (if mode = O_RDONLY k then Inr (buf @ ''O_RDONLY'')
               else if mode = O_RDWR k then Inr (buf @ ''O_RDWR'')
               else if mode = O_WRONLY k then Inr (buf @ ''O_WRONLY'')
               else Inl Abort) of
           Inl stop \<Rightarrow> Inl stop
         | Inr buf0 \<Rightarrow>
             (let buf1 = strcat_if oflags (O_APPEND k) ''|O_APPEND'' buf0;
                  buf2 = strcat_if oflags (Some (O_CREAT k)) ''|O_CREAT'' buf1;
                  buf3 = strcat_if oflags (O_DSYNC k) ''|O_DSYNC'' buf2;
                  buf4 = strcat_if oflags (Some (O_EXCL k)) ''|O_EXCL'' buf3;
                  buf5 = strcat_if oflags (O_LARGEFILE k) ''|O_LARGEFILE'' buf4;
                  buf6 = strcat_if oflags (O_NOCTTY k) ''|O_NOCTTY'' buf5;
                  buf7 = strcat_if oflags (Some (O_NONBLOCK k)) ''|O_NONBLOCK'' buf6;
                  buf8 = strcat_if oflags (O_RSYNC k) ''|O_RSYNC'' buf7;
                  buf9 = strcat_if oflags (O_SYNC k) ''|O_SYNC'' buf8
              in Inr (strcat_if oflags (Some (O_TRUNC k)) ''|O_TRUNC'' buf9)))"

subsection \<open>Opening a connection\<close>

text \<open>The C string that starts at offset \<open>p\<close> of a buffer.\<close>

definition cstr_at :: "char list \<Rightarrow> nat \<Rightarrow> string" where
  "cstr_at buf p = cstr (drop p buf)"

text \<open>
  The loop that pulls apart \<open>[USER@]HOST:FILE\<close> in the copy of the file name.  The
  three pointers are offsets into the copy; a null pointer is \<open>None\<close>.  The result is
  the errno of the early return, or the copy and the three pointers.
\<close>

function split_file_name ::
  "nat \<Rightarrow> char list \<Rightarrow> nat option \<Rightarrow> nat \<Rightarrow> nat option
     \<Rightarrow> int + char list \<times> nat option \<times> nat \<times> nat option" where
  "split_file_name cursor copy remote_user remote_host remote_file =
     (if cursor < length copy \<and> copy ! cursor \<noteq> NUL then
        (if copy ! cursor = NL then Inl ENOENT
         else if copy ! cursor = CHR ''@'' then
           (if remote_user = None
            then split_file_name (cursor + 1) (copy[cursor := NUL])
                   (Some remote_host) (cursor + 1) remote_file
            else split_file_name (cursor + 1) copy remote_user remote_host remote_file)
         else if copy ! cursor = CHR '':'' then
           (if remote_file = None
            then split_file_name (cursor + 1) (copy[cursor := NUL])
                   remote_user remote_host (Some (cursor + 1))
            else split_file_name (cursor + 1) copy remote_user remote_host remote_file)
         else split_file_name (cursor + 1) copy remote_user remote_host remote_file)
      else Inr (copy, remote_user, remote_host, remote_file))"
  by pat_completeness auto
termination
  by (relation "measure (\<lambda>(cursor, copy, u, h, f). length copy - cursor)") auto

declare split_file_name.simps [simp del]

text \<open>The search for an unused pair of descriptors.\<close>

function find_unused :: "rmt_state \<Rightarrow> nat \<Rightarrow> nat" where
  "find_unused s remote_pipe_number =
     (if remote_pipe_number < MAXUNIT then
        (if read_side s remote_pipe_number < 0 \<and> write_side s remote_pipe_number < 0
         then remote_pipe_number
         else find_unused s (remote_pipe_number + 1))
      else remote_pipe_number)"
  by pat_completeness auto
termination
  by (relation "measure (\<lambda>(s, n). MAXUNIT - n)") auto

declare find_unused.simps [simp del]

text \<open>
  \<open>rmt_open\<close> as the calling process sees it.  The child of the fork redirects its
  standard streams, resets its ids and executes the remote shell; it never returns
  into the caller, and the user name and the base name of the shell are used by it
  alone.

  What the system answers during \<open>rmt_open\<close>: whether the host resolves, the value of
  \<open>REMOTE_SHELL\<close> if the build defines it, the results of the two \<open>pipe\<close> calls and of
  \<open>fork\<close> (\<open>Inl\<close> an errno; \<open>Inr\<close> the two descriptors, read end first, or the process
  id), what the remote helper will send, and how many bytes it will take.
\<close>

record open_env =
  host_resolves :: "string \<Rightarrow> bool"
  REMOTE_SHELL :: "string option"
  pipe_to_remote :: "int + int \<times> int"
  pipe_from_remote :: "int + int \<times> int"
  fork_result :: "int + int"
  remote_reply :: "rd_event list"
  remote_room :: "nat option"

definition rmt_open ::
  "oflag_consts \<Rightarrow> open_env \<Rightarrow> rmt_state \<Rightarrow> string \<Rightarrow> int \<Rightarrow> int \<Rightarrow> string option
     \<Rightarrow> stop + int \<times> rmt_state" where
  "rmt_open k env s file_name oflags bias remote_shell =
     (let remote_pipe_number = find_unused s 0 in
      if remote_pipe_number = MAXUNIT then Inr (-1, s\<lparr>errno := EMFILE\<rparr>)
      else case split_file_name 0 file_name None 0 None of
        Inl e \<Rightarrow> Inr (-1, s\<lparr>errno := e\<rparr>)
      | Inr (copy, remote_user, remote_host, remote_file) \<Rightarrow>
          (case remote_file of
             None \<Rightarrow> Inl Assumption_violated
           | Some file \<Rightarrow>
               if \<not> host_resolves env (cstr_at copy remote_host) then Inl (Exit EXIT_ON_EXEC_ERROR)
               else if remote_shell = None \<and> REMOTE_SHELL env = None
               then Inr (-1, s\<lparr>errno := EIO\<rparr>)
               else case pipe_to_remote env of
                 Inl e \<Rightarrow> Inr (-1, s\<lparr>errno := e\<rparr>)
               | Inr (tr, tw) \<Rightarrow>
                   (let s1 = s\<lparr>to_remote := (to_remote s)[remote_pipe_number := (tr, tw)],
                               fds := (fds s)(tr \<mapsto> RdEnd [], tw \<mapsto> WrEnd [] (remote_room env))\<rparr>
                    in case pipe_from_remote env of
                      Inl e \<Rightarrow>
                        Inr (-1, (close_fd (close_fd s1 (fst (to_remote s1 ! remote_pipe_number)))
                                    (snd (to_remote s1 ! remote_pipe_number)))\<lparr>errno := e\<rparr>)
                    | Inr (fr, fw) \<Rightarrow>
                        (let s2 = s1\<lparr>from_remote := (from_remote s1)[remote_pipe_number := (fr, fw)],
                                    fds := (fds s1)(fr \<mapsto> RdEnd (remote_reply env),
                                                    fw \<mapsto> WrEnd [] None)\<rparr>
                         in case fork_result env of
                           Inl e \<Rightarrow>
                             Inr (-1, (close_fd (close_fd (close_fd (close_fd s2
                                          (fst (from_remote s2 ! remote_pipe_number)))
                                          (snd (from_remote s2 ! remote_pipe_number)))
                                          (fst (to_remote s2 ! remote_pipe_number)))
                                          (snd (to_remote s2 ! remote_pipe_number)))\<lparr>errno := e\<rparr>)
                         | Inr pid \<Rightarrow>
                             if pid = 0 then Inl Child_process
                             else
                               (let s3 = close_fd (close_fd s2
                                           (snd (from_remote s2 ! remote_pipe_number)))
                                           (fst (to_remote s2 ! remote_pipe_number))
                                in case encode_oflags k oflags of
                                  Inl stop \<Rightarrow> Inl stop
                                | Inr flags \<Rightarrow>
                                    (case do_command s3 remote_pipe_number
                                            (''O'' @ cstr_at copy file @ [NL] @ flags @ [NL]) of
                                       (r, s4) \<Rightarrow>
                                         if r = -1
                                         then Inr (-1, rmt_shutdown s4 remote_pipe_number (errno s4))
                                         else case get_status s4 remote_pipe_number of
                                           (status, s5) \<Rightarrow>
                                             if status = -1
                                             then Inr (-1, rmt_shutdown s5 remote_pipe_number (errno s5))
                                             else Inr (int remote_pipe_number + bias, s5)))))))"

section \<open>Notions used in the statements\<close>

text \<open>
  The bytes the reads of a descriptor deliver before the first end of file or error:
  the concatenation of the runs that have arrived, however they are cut.
\<close>

fun avail :: "rd_event list \<Rightarrow> char list" where
  "avail [] = []"
| "avail (Data bs # rest) = (if bs = [] then [] else bs @ avail rest)"
| "avail (Fail e # rest) = []"

text \<open>
  A state in which connection 0 is open, as \<open>rmt_open\<close> leaves it when the two pipes
  got the descriptors 3, 4 and 5, 6: the parent reads from 5, where \<open>evs\<close> will arrive,
  and writes to 4.
\<close>

definition session :: "rd_event list \<Rightarrow> rmt_state" where
  "session evs = \<lparr> from_remote = [(5, 6), (-1, -1), (-1, -1), (-1, -1)],
                   to_remote = [(3, 4), (-1, -1), (-1, -1), (-1, -1)],
                   errno = 0,
                   fds = [5 \<mapsto> RdEnd evs, 4 \<mapsto> WrEnd [] None] \<rparr>"

text \<open>
  Handle \<open>h\<close> is an open connection: its two sides are different descriptors, the
  read side is an open read end on which \<open>evs\<close> will arrive, and the write side is an
  open write end that takes whatever is written.
\<close>

definition connected :: "rmt_state \<Rightarrow> nat \<Rightarrow> rd_event list \<Rightarrow> bool" where
  "connected s h evs \<longleftrightarrow>
     h < length (from_remote s) \<and> h < length (to_remote s)
     \<and> read_side s h \<noteq> write_side s h
     \<and> fds s (read_side s h) = Some (RdEnd evs)
     \<and> (case fds s (write_side s h) of Some (WrEnd sent None) \<Rightarrow> True | _ \<Rightarrow> False)"

text \<open>The bytes written so far to the write side of a connection.\<close>

definition wire :: "rmt_state \<Rightarrow> nat \<Rightarrow> char list" where
  "wire s h = (case fds s (write_side s h) of Some (WrEnd sent room) \<Rightarrow> sent | _ \<Rightarrow> [])"

text \<open>
  An example of a status structure: 4 bytes, of which the first two are the check
  field, low byte first.
\<close>

definition le_value :: "char list \<Rightarrow> int" where
  "le_value bs = foldr (\<lambda>c v. int (of_char c) + 256 * v) bs 0"

definition small_mtget :: mtget_layout where
  "small_mtget = \<lparr> mtget_size = 4, check_field = (\<lambda>buf. le_value (take 2 buf)) \<rparr>"

text \<open>
  The names the encoder knows, in its order: the three access modes with their values,
  and the flags with their masks (\<open>None\<close> for a flag the platform does not define).
\<close>

definition access_modes :: "oflag_consts \<Rightarrow> (string \<times> int) list" where
  "access_modes k =
     [(''O_RDONLY'', O_RDONLY k), (''O_RDWR'', O_RDWR k), (''O_WRONLY'', O_WRONLY k)]"

definition oflag_table :: "oflag_consts \<Rightarrow> (string \<times> int option) list" where
  "oflag_table k =
     [(''O_APPEND'', O_APPEND k), (''O_CREAT'', Some (O_CREAT k)), (''O_DSYNC'', O_DSYNC k),
      (''O_EXCL'', Some (O_EXCL k)), (''O_LARGEFILE'', O_LARGEFILE k),
      (''O_NOCTTY'', O_NOCTTY k), (''O_NONBLOCK'', Some (O_NONBLOCK k)),
      (''O_RSYNC'', O_RSYNC k), (''O_SYNC'', O_SYNC k), (''O_TRUNC'', Some (O_TRUNC k))]"

text \<open>A flag is shown for a value when it is defined and shares a bit with the value.\<close>

definition shown :: "int \<Rightarrow> string \<times> int option \<Rightarrow> bool" where
  "shown oflags e = (case snd e of None \<Rightarrow> False | Some m \<Rightarrow> oflags AND m \<noteq> 0)"

definition shown_flags :: "oflag_consts \<Rightarrow> int \<Rightarrow> string list" where
  "shown_flags k oflags = map fst (filter (shown oflags) (oflag_table k))"

fun or_masks :: "(string \<times> int option) list \<Rightarrow> int" where
  "or_masks [] = 0"
| "or_masks ((n, None) # es) = or_masks es"
| "or_masks ((n, Some m) # es) = m OR or_masks es"

definition shown_mask :: "oflag_consts \<Rightarrow> int \<Rightarrow> int" where
  "shown_mask k oflags = or_masks (filter (shown oflags) (oflag_table k))"

text \<open>Names joined with \<open>|\<close>, and a string split at every \<open>|\<close>.\<close>

fun join_bar :: "string list \<Rightarrow> string" where
  "join_bar [] = []"
| "join_bar [x] = x"
| "join_bar (x # y # ys) = x @ ''|'' @ join_bar (y # ys)"

fun split_bar :: "string \<Rightarrow> string list" where
  "split_bar [] = [[]]"
| "split_bar (c # cs) =
     (if c = CHR ''|'' then [] # split_bar cs
      else case split_bar cs of [] \<Rightarrow> [[c]] | w # ws \<Rightarrow> (c # w) # ws)"

text \<open>
  The flag set a symbolic form denotes: the values of its names, or-ed together
  (\<open>None\<close> if a name is unknown).
\<close>

definition symbol_value :: "oflag_consts \<Rightarrow> string \<Rightarrow> int option" where
  "symbol_value k n =
     (case map_of (access_modes k) n of
        Some v \<Rightarrow> Some v
      | None \<Rightarrow> (case map_of (oflag_table k) n of Some (Some m) \<Rightarrow> Some m | _ \<Rightarrow> None))"

fun or_symbols :: "oflag_consts \<Rightarrow> string list \<Rightarrow> int option" where
  "or_symbols k [] = Some 0"
| "or_symbols k (n # ns) =
     (case symbol_value k n of
        None \<Rightarrow> None
      | Some m \<Rightarrow> map_option (\<lambda>v. m OR v) (or_symbols k ns))"

definition denotation :: "oflag_consts \<Rightarrow> string \<Rightarrow> int option" where
  "denotation k form = or_symbols k (split_bar form)"

text \<open>
  A value is covered by the names when every flag that shares a bit with it lies
  within it, and it has no bit outside the access mode and the flags.
\<close>

definition covered :: "oflag_consts \<Rightarrow> int \<Rightarrow> bool" where
  "covered k oflags \<longleftrightarrow>
     (\<forall>e \<in> set (oflag_table k). \<forall>m. snd e = Some m \<longrightarrow> oflags AND m \<noteq> 0 \<longrightarrow> oflags AND m = m)
     \<and> oflags AND (O_ACCMODE k OR or_masks (oflag_table k)) = oflags"

text \<open>The values of \<open>fcntl.h\<close> on GNU/Linux (x86-64), where \<open>O_RSYNC\<close> is \<open>O_SYNC\<close>,
  \<open>O_SYNC\<close> contains the bit of \<open>O_DSYNC\<close>, and \<open>O_LARGEFILE\<close> is 0.\<close>

definition linux_oflags :: oflag_consts where
  "linux_oflags = \<lparr> O_ACCMODE = 3, O_RDONLY = 0, O_RDWR = 2, O_WRONLY = 1,
       O_APPEND = Some 1024, O_CREAT = 64, O_DSYNC = Some 4096, O_EXCL = 128,
       O_LARGEFILE = Some 0, O_NOCTTY = Some 256, O_NONBLOCK = 2048,
       O_RSYNC = Some 1052672, O_SYNC = Some 1052672, O_TRUNC = 512 \<rparr>"

text \<open>
  A system in which the host resolves, the two pipes get the descriptors 3, 4 and 5, 6,
  the fork succeeds, and the remote helper answers what \<open>evs\<close> says.
\<close>

definition open_ok :: "rd_event list \<Rightarrow> open_env" where
  "open_ok evs = \<lparr> host_resolves = (\<lambda>host. True), REMOTE_SHELL = None,
       pipe_to_remote = Inr (3, 4), pipe_from_remote = Inr (5, 6),
       fork_result = Inr 1234, remote_reply = evs, remote_room = None \<rparr>"

text \<open>
  An invariant for the proofs, which no statement of a claim mentions.  A step from
  \<open>s\<close> to \<open>s'\<close> on handle \<open>h\<close> is orderly when it opens no descriptor, keeps the
  lengths of the two tables, and either leaves the tables alone or ends with the
  connection of \<open>s\<close> shut down: both entries \<open>-1\<close> and both descriptors closed.  Every
  step of the status reader is orderly, so a shutdown after it closes the descriptors
  the connection had when the call began.
\<close>

definition orderly :: "rmt_state \<Rightarrow> rmt_state \<Rightarrow> nat \<Rightarrow> bool" where
  "orderly s s' h \<longleftrightarrow>
     (\<forall>fd. fds s fd = None \<longrightarrow> fds s' fd = None)
     \<and> length (from_remote s') = length (from_remote s)
     \<and> length (to_remote s') = length (to_remote s)
     \<and> ((from_remote s' = from_remote s \<and> to_remote s' = to_remote s)
        \<or> (read_side s' h = -1 \<and> write_side s' h = -1
            \<and> fds s' (read_side s h) = None \<and> fds s' (write_side s h) = None))"

section \<open>Auxiliary facts\<close>

subsection \<open>Decimal numbers\<close>

lemma of_char_digit_char: "d < 10 \<Longrightarrow> (of_char (digit_char d) :: nat) = 48 + d"
proof -
  assume "d < 10"
  then have "d \<in> {0, 1, 2, 3, 4, 5, 6, 7, 8, 9}" by auto
  then show ?thesis by (auto simp: digit_char_def)
qed

lemma isdigit_digit_char: "d < 10 \<Longrightarrow> isdigit (digit_char d)"
  by (simp add: isdigit_def of_char_digit_char)

lemma digit_val_digit_char: "d < 10 \<Longrightarrow> digit_val (digit_char d) = int d"
  by (simp add: digit_val_def of_char_digit_char)

lemma dec_nat_digits: "c \<in> set (dec_nat n) \<Longrightarrow> isdigit c"
proof (induction n arbitrary: c rule: dec_nat.induct)
  case (1 n)
  show ?case
  proof (cases "n < 10")
    case True
    with "1.prems" show ?thesis by (simp add: dec_nat.simps [of n] isdigit_digit_char)
  next
    case False
    with "1.prems" "1.IH" show ?thesis
      by (auto simp: dec_nat.simps [of n] isdigit_digit_char)
  qed
qed

lemma dec_nat_nonempty: "dec_nat n \<noteq> []"
  by (subst dec_nat.simps) simp

lemma digits_value_append:
  "\<forall>c \<in> set ds. isdigit c \<Longrightarrow>
     digits_value acc (ds @ rest) = digits_value (digits_value acc ds) rest"
  by (induction ds arbitrary: acc) auto

lemma digits_value_dec_nat: "digits_value acc (dec_nat n) = acc * 10 ^ length (dec_nat n) + int n"
proof (induction n arbitrary: acc rule: dec_nat.induct)
  case (1 n)
  show ?case
  proof (cases "n < 10")
    case True
    then show ?thesis
      by (simp add: dec_nat.simps [of n] isdigit_digit_char digit_val_digit_char)
  next
    case False
    have d: "\<forall>c \<in> set (dec_nat (n div 10)). isdigit c"
      by (simp add: dec_nat_digits)
    have "digits_value acc (dec_nat n)
            = digits_value (digits_value acc (dec_nat (n div 10))) [digit_char (n mod 10)]"
      using False by (simp add: dec_nat.simps [of n] digits_value_append [OF d])
    also have "\<dots> = (acc * 10 ^ length (dec_nat (n div 10)) + int (n div 10)) * 10 + int (n mod 10)"
      using False by (simp add: "1.IH" isdigit_digit_char digit_val_digit_char)
    also have "\<dots> = acc * 10 ^ length (dec_nat n) + int n"
    proof -
      have "int n = int (n div 10) * 10 + int (n mod 10)"
        by (simp add: zdiv_int zmod_int)
      moreover have "length (dec_nat n) = Suc (length (dec_nat (n div 10)))"
        using False by (simp add: dec_nat.simps [of n])
      ultimately show ?thesis by (simp add: algebra_simps)
    qed
    finally show ?thesis .
  qed
qed

lemma isdigit_not_isspace: "isdigit c \<Longrightarrow> \<not> isspace c"
  by (auto simp: isdigit_def isspace_def)

lemma isdigit_not_sign: "isdigit c \<Longrightarrow> c \<noteq> CHR ''-'' \<and> c \<noteq> CHR ''+'' \<and> c \<noteq> NL \<and> c \<noteq> NUL \<and> c \<noteq> CHR '' ''"
  by (auto simp: isdigit_def NL_def NUL_def)

lemma decimal_value_dec_nat: "decimal_value (dec_nat n) = int n"
proof -
  obtain c cs where e: "dec_nat n = c # cs"
    using dec_nat_nonempty [of n] by (cases "dec_nat n") auto
  then have "isdigit c" using dec_nat_digits [of c n] by simp
  then have "decimal_value (c # cs) = digits_value 0 (c # cs)"
    using isdigit_not_isspace [of c] isdigit_not_sign [of c]
    by (simp add: decimal_value_def)
  then show ?thesis using digits_value_dec_nat [of 0 n] e by simp
qed

lemma decimal_value_dec_int: "decimal_value (dec_int i) = i"
proof (cases "i < 0")
  case True
  have "\<not> isspace (CHR ''-'')" by (simp add: isspace_def)
  then have "decimal_value (dec_int i) = - digits_value 0 (dec_nat (nat (- i)))"
    using True by (simp add: dec_int_def decimal_value_def)
  then show ?thesis using True by (simp add: digits_value_dec_nat)
next
  case False
  then show ?thesis by (simp add: dec_int_def decimal_value_dec_nat)
qed

lemma atol_cases: "atol s str = (v, s') \<Longrightarrow> s' = s \<or> s' = s\<lparr>errno := ERANGE\<rparr>"
  by (auto simp: atol_def Let_def split: if_splits)

lemma atoi_cases: "atoi s str = (v, s') \<Longrightarrow> s' = s \<or> s' = s\<lparr>errno := ERANGE\<rparr>"
  by (auto simp: atoi_def split: prod.splits dest: atol_cases)

lemma atol_dec_int: "LONG_MIN \<le> i \<Longrightarrow> i \<le> LONG_MAX \<Longrightarrow> atol s (dec_int i) = (i, s)"
  by (simp add: atol_def decimal_value_dec_int)

lemma length_dec_nat: "n < 10 ^ Suc k \<Longrightarrow> length (dec_nat n) \<le> Suc k"
proof (induction k arbitrary: n)
  case 0
  then show ?case by (simp add: dec_nat.simps [of n])
next
  case (Suc k)
  show ?case
  proof (cases "n < 10")
    case True
    then show ?thesis by (simp add: dec_nat.simps [of n])
  next
    case False
    from Suc.prems have "n div 10 < 10 ^ Suc k" by simp
    from Suc.IH [OF this] False show ?thesis by (simp add: dec_nat.simps [of n])
  qed
qed

lemma length_dec_int: "LONG_MIN \<le> i \<Longrightarrow> i \<le> LONG_MAX \<Longrightarrow> length (dec_int i) \<le> 20"
proof -
  assume a: "LONG_MIN \<le> i" "i \<le> LONG_MAX"
  have "nat \<bar>i\<bar> < 10 ^ Suc 18" using a by (simp add: LONG_MIN_def LONG_MAX_def)
  from length_dec_nat [OF this] show ?thesis
    by (auto simp: dec_int_def abs_if split: if_splits)
qed

subsection \<open>Reading from a descriptor\<close>

lemma safe_read_avail:
  assumes "fds s fd = Some (RdEnd evs)" and "avail evs = c # cs" and "0 < n"
  shows "\<exists>k evs'. safe_read s fd n = (int k, take k (c # cs), s\<lparr>fds := (fds s)(fd \<mapsto> RdEnd evs')\<rparr>)
            \<and> 0 < k \<and> k \<le> n \<and> k \<le> length (c # cs) \<and> avail evs' = drop k (c # cs)"
proof -
  from assms(2) obtain bs rest where evs: "evs = Data bs # rest" and bs: "bs \<noteq> []"
    and av: "bs @ avail rest = c # cs"
    by (cases evs rule: avail.cases) (auto split: if_splits)
  have len: "length bs \<le> length (c # cs)"
    using arg_cong [OF av, of length] by simp
  show ?thesis
  proof (cases "length bs \<le> n")
    case True
    have "safe_read s fd n = (int (length bs), bs, s\<lparr>fds := (fds s)(fd \<mapsto> RdEnd rest)\<rparr>)"
      using assms(1) evs True by (simp add: safe_read_def)
    moreover have "take (length bs) (c # cs) = bs" "drop (length bs) (c # cs) = avail rest"
      using av [symmetric] by simp_all
    ultimately show ?thesis using bs True len
      by (intro exI [of _ "length bs"] exI [of _ rest]) simp
  next
    case False
    have "safe_read s fd n = (int n, take n bs, s\<lparr>fds := (fds s)(fd \<mapsto> RdEnd (Data (drop n bs) # rest))\<rparr>)"
      using assms(1) evs False by (simp add: safe_read_def)
    moreover have "take n (c # cs) = take n bs" "drop n (c # cs) = drop n bs @ avail rest"
      using av [symmetric] False by simp_all
    ultimately show ?thesis using False assms(3) len
      by (intro exI [of _ n] exI [of _ "Data (drop n bs) # rest"]) simp
  qed
qed

lemma safe_read_one:
  assumes "fds s fd = Some (RdEnd evs)" and "avail evs = c # cs"
  shows "\<exists>evs'. safe_read s fd 1 = (1, [c], s\<lparr>fds := (fds s)(fd \<mapsto> RdEnd evs')\<rparr>) \<and> avail evs' = cs"
proof -
  from safe_read_avail [OF assms, of 1] obtain k evs' where
    r: "safe_read s fd 1 = (int k, take k (c # cs), s\<lparr>fds := (fds s)(fd \<mapsto> RdEnd evs')\<rparr>)"
    and k: "0 < k" "k \<le> 1" and av: "avail evs' = drop k (c # cs)"
    by auto
  from k have "k = 1" by simp
  with r av show ?thesis by auto
qed

lemma safe_read_none:
  assumes "fds s fd = Some (RdEnd evs)" and "avail evs = []"
  shows "fst (safe_read s fd n) \<le> 0"
  using assms
  by (cases evs rule: avail.cases) (auto simp: safe_read_def split: if_splits)

lemma read_side_fds_update [simp]:
  "read_side (s\<lparr>fds := f\<rparr>) h = read_side s h" "write_side (s\<lparr>fds := f\<rparr>) h = write_side s h"
  "read_side (s\<lparr>errno := e\<rparr>) h = read_side s h" "write_side (s\<lparr>errno := e\<rparr>) h = write_side s h"
  by (simp_all add: read_side_def write_side_def)

lemma close_fd_tables [simp]:
  "from_remote (close_fd s fd) = from_remote s" "to_remote (close_fd s fd) = to_remote s"
  by (simp_all add: close_fd_def)

lemma close_fd_sides [simp]:
  "read_side (close_fd s fd) h = read_side s h" "write_side (close_fd s fd) h = write_side s h"
  by (simp_all add: read_side_def write_side_def)

lemma rmt_shutdown_sides:
  assumes "h < length (from_remote s)" and "h < length (to_remote s)"
  shows "read_side (rmt_shutdown s h e) h = -1" and "write_side (rmt_shutdown s h e) h = -1"
    and "errno (rmt_shutdown s h e) = e"
  using assms by (simp_all add: rmt_shutdown_def Let_def read_side_def write_side_def)

lemma rmt_shutdown_lengths [simp]:
  "length (from_remote (rmt_shutdown s h e)) = length (from_remote s)"
  "length (to_remote (rmt_shutdown s h e)) = length (to_remote s)"
  by (simp_all add: rmt_shutdown_def Let_def)

lemma rmt_shutdown_closes:
  "fds (rmt_shutdown s h e) (read_side s h) = None"
  "fds (rmt_shutdown s h e) (write_side s h) = None"
  by (auto simp: rmt_shutdown_def Let_def close_fd_def)

lemma orderly_refl: "orderly s s h"
  by (simp add: orderly_def)

lemma orderly_trans:
  assumes "orderly s s1 h" and "orderly s1 s2 h"
  shows "orderly s s2 h"
proof -
  have c: "\<forall>fd. fds s fd = None \<longrightarrow> fds s2 fd = None"
    using assms by (simp add: orderly_def)
  have l: "length (from_remote s2) = length (from_remote s)"
    "length (to_remote s2) = length (to_remote s)"
    using assms by (simp_all add: orderly_def)
  consider (aa) "from_remote s1 = from_remote s" "to_remote s1 = to_remote s"
      "from_remote s2 = from_remote s1" "to_remote s2 = to_remote s1"
    | (ad) "from_remote s1 = from_remote s" "to_remote s1 = to_remote s"
      "read_side s2 h = -1" "write_side s2 h = -1"
      "fds s2 (read_side s1 h) = None" "fds s2 (write_side s1 h) = None"
    | (da) "read_side s1 h = -1" "write_side s1 h = -1"
      "fds s1 (read_side s h) = None" "fds s1 (write_side s h) = None"
      "from_remote s2 = from_remote s1" "to_remote s2 = to_remote s1"
    | (dd) "fds s1 (read_side s h) = None" "fds s1 (write_side s h) = None"
      "read_side s2 h = -1" "write_side s2 h = -1"
    using assms unfolding orderly_def by argo
  then show ?thesis
  proof cases
    case aa
    with c l show ?thesis by (simp add: orderly_def)
  next
    case ad
    then have "read_side s1 h = read_side s h" "write_side s1 h = write_side s h"
      by (simp_all add: read_side_def write_side_def)
    with ad c l show ?thesis by (simp add: orderly_def)
  next
    case da
    then have "read_side s2 h = -1" "write_side s2 h = -1"
      by (simp_all add: read_side_def write_side_def)
    moreover have "fds s2 (read_side s h) = None" "fds s2 (write_side s h) = None"
      using da(3,4) assms(2) by (simp_all add: orderly_def)
    ultimately show ?thesis using c l by (simp add: orderly_def)
  next
    case dd
    have "fds s2 (read_side s h) = None" "fds s2 (write_side s h) = None"
      using dd(1,2) assms(2) by (simp_all add: orderly_def)
    with dd c l show ?thesis by (simp add: orderly_def)
  qed
qed

lemma orderly_errno: "orderly s s' h \<Longrightarrow> orderly s (s'\<lparr>errno := e\<rparr>) h"
  by (simp add: orderly_def)

lemma orderly_safe_read: "safe_read s fd n = (rlen, bytes, s1) \<Longrightarrow> orderly s s1 h"
  by (auto simp: safe_read_def orderly_def
           split: option.splits chan.splits list.splits rd_event.splits if_splits)

lemma orderly_full_write: "orderly s (snd (full_write s fd buf)) h"
  by (auto simp: full_write_def orderly_def Let_def split: option.splits chan.splits)

lemma orderly_close_fd: "orderly s (close_fd s fd) h"
  by (auto simp: close_fd_def orderly_def)

lemma rmt_shutdown_keeps_closed: "fds s fd = None \<Longrightarrow> fds (rmt_shutdown s h e) fd = None"
  by (simp add: rmt_shutdown_def Let_def close_fd_def)

lemma orderly_shutdown:
  assumes "h < length (from_remote s)" and "h < length (to_remote s)"
  shows "orderly s (rmt_shutdown s h e) h"
  using rmt_shutdown_sides [OF assms, of e] rmt_shutdown_closes [of s h e]
    rmt_shutdown_keeps_closed [of s _ h e]
  by (simp add: orderly_def)

lemma orderly_lengths:
  "orderly s s' h \<Longrightarrow> h < length (from_remote s) \<Longrightarrow> h < length (from_remote s')"
  "orderly s s' h \<Longrightarrow> h < length (to_remote s) \<Longrightarrow> h < length (to_remote s')"
  by (simp_all add: orderly_def)

lemma orderly_then_shutdown:
  assumes "orderly s s1 h" and "h < length (from_remote s)" and "h < length (to_remote s)"
  shows "orderly s (rmt_shutdown s1 h e) h"
    and "read_side (rmt_shutdown s1 h e) h = -1"
    and "write_side (rmt_shutdown s1 h e) h = -1"
    and "errno (rmt_shutdown s1 h e) = e"
    and "fds (rmt_shutdown s1 h e) (read_side s h) = None"
    and "fds (rmt_shutdown s1 h e) (write_side s h) = None"
proof -
  have l: "h < length (from_remote s1)" "h < length (to_remote s1)"
    using assms by (simp_all add: orderly_def)
  from orderly_trans [OF assms(1) orderly_shutdown [OF l]]
  show o: "orderly s (rmt_shutdown s1 h e) h" .
  from rmt_shutdown_sides [OF l, of e]
  show sd: "read_side (rmt_shutdown s1 h e) h = -1" "write_side (rmt_shutdown s1 h e) h = -1"
    "errno (rmt_shutdown s1 h e) = e" .
  from assms(1) consider "from_remote s1 = from_remote s" "to_remote s1 = to_remote s"
    | "fds s1 (read_side s h) = None" "fds s1 (write_side s h) = None"
    unfolding orderly_def by argo
  then have "fds (rmt_shutdown s1 h e) (read_side s h) = None
      \<and> fds (rmt_shutdown s1 h e) (write_side s h) = None"
  proof cases
    case 1
    then have "read_side s1 h = read_side s h" "write_side s1 h = write_side s h"
      by (simp_all add: read_side_def write_side_def)
    with rmt_shutdown_closes [of s1 h e] show ?thesis by simp
  next
    case 2
    then show ?thesis by (simp add: rmt_shutdown_keeps_closed)
  qed
  then show "fds (rmt_shutdown s1 h e) (read_side s h) = None"
    and "fds (rmt_shutdown s1 h e) (write_side s h) = None" by simp_all
qed

lemma read_reply_line_avail:
  assumes "fds s (read_side s h) = Some (RdEnd evs)"
    and "avail evs = line @ NL # rest" and "NL \<notin> set line"
    and "length buf + length line < COMMAND_BUFFER_SIZE"
  shows "\<exists>evs'. read_reply_line s h buf
                  = (Some (buf @ line), s\<lparr>fds := (fds s)(read_side s h \<mapsto> RdEnd evs')\<rparr>)
               \<and> avail evs' = rest"
  using assms
proof (induction line arbitrary: s evs buf)
  case Nil
  from safe_read_one [OF Nil.prems(1), of NL rest] Nil.prems(2) obtain evs' where
    "safe_read s (read_side s h) 1 = (1, [NL], s\<lparr>fds := (fds s)(read_side s h \<mapsto> RdEnd evs')\<rparr>)"
    "avail evs' = rest" by auto
  with Nil.prems(4) show ?case
    by (subst read_reply_line.simps) auto
next
  case (Cons c line)
  from safe_read_one [OF Cons.prems(1), of c "line @ NL # rest"] Cons.prems(2) obtain evs1 where
    r: "safe_read s (read_side s h) 1 = (1, [c], s\<lparr>fds := (fds s)(read_side s h \<mapsto> RdEnd evs1)\<rparr>)"
    and av: "avail evs1 = line @ NL # rest" by auto
  let ?s1 = "s\<lparr>fds := (fds s)(read_side s h \<mapsto> RdEnd evs1)\<rparr>"
  have "fds ?s1 (read_side ?s1 h) = Some (RdEnd evs1)" by simp
  moreover have "length (buf @ [c]) + length line < COMMAND_BUFFER_SIZE" "NL \<notin> set line"
    using Cons.prems(3,4) by simp_all
  ultimately have "\<exists>evs'. read_reply_line ?s1 h (buf @ [c])
       = (Some ((buf @ [c]) @ line), ?s1\<lparr>fds := (fds ?s1)(read_side ?s1 h \<mapsto> RdEnd evs')\<rparr>)
       \<and> avail evs' = rest"
    using av by (intro Cons.IH)
  then obtain evs' where
    "read_reply_line ?s1 h (buf @ [c])
       = (Some ((buf @ [c]) @ line), ?s1\<lparr>fds := (fds ?s1)(read_side ?s1 h \<mapsto> RdEnd evs')\<rparr>)"
    and av': "avail evs' = rest" by blast
  then have "read_reply_line ?s1 h (buf @ [c])
       = (Some (buf @ c # line), s\<lparr>fds := (fds s)(read_side s h \<mapsto> RdEnd evs')\<rparr>)"
    by simp
  with r Cons.prems(3,4) av' show ?case
    by (subst read_reply_line.simps) auto
qed

lemma dec_int_chars: "c \<in> set (dec_int i) \<Longrightarrow> isdigit c \<or> c = CHR ''-''"
  by (auto simp: dec_int_def dec_nat_digits split: if_splits)

lemma dec_int_no_NL: "NL \<notin> set (dec_int i)"
  using dec_int_chars [of NL i] by (auto simp: isdigit_def NL_def)

lemma dec_int_no_NUL: "NUL \<notin> set (dec_int i)"
  using dec_int_chars [of NUL i] by (auto simp: isdigit_def NUL_def)

lemma cstr_no_NUL: "NUL \<notin> set xs \<Longrightarrow> cstr xs = xs"
  by (auto simp: cstr_def takeWhile_eq_all_conv)

lemma atol_dec_int_sat:
  "atol s (dec_int i)
     = (max LONG_MIN (min LONG_MAX i),
        if i < LONG_MIN \<or> LONG_MAX < i then s\<lparr>errno := ERANGE\<rparr> else s)"
  by (simp add: atol_def decimal_value_dec_int LONG_MIN_def LONG_MAX_def)

lemma full_write_all:
  assumes "fds s fd = Some (WrEnd sent None)"
  shows "full_write s fd buf = (length buf, s\<lparr>fds := (fds s)(fd \<mapsto> WrEnd (sent @ buf) None)\<rparr>)"
proof (cases "buf = []")
  case True
  have "(fds s)(fd \<mapsto> WrEnd sent None) = fds s" using assms by (simp add: fun_upd_idem)
  with True show ?thesis by (simp add: full_write_def)
next
  case False
  with assms show ?thesis by (simp add: full_write_def)
qed

lemma do_command_sent:
  assumes "fds s (write_side s h) = Some (WrEnd sent None)"
  shows "do_command s h cmd = (0, s\<lparr>fds := (fds s)(write_side s h \<mapsto> WrEnd (sent @ cmd) None)\<rparr>)"
  by (simp add: do_command_def full_write_all [OF assms])

lemma get_status_string_A:
  assumes "fds s (read_side s h) = Some (RdEnd evs)"
    and "avail evs = CHR ''A'' # txt @ NL # rest"
    and "NL \<notin> set txt" and "NUL \<notin> set txt"
    and "Suc (length txt) < COMMAND_BUFFER_SIZE"
  shows "\<exists>evs'. get_status_string s h
                  = (Some txt, s\<lparr>fds := (fds s)(read_side s h \<mapsto> RdEnd evs')\<rparr>)
               \<and> avail evs' = rest"
proof -
  have "\<exists>evs'. read_reply_line s h []
            = (Some ([] @ CHR ''A'' # txt), s\<lparr>fds := (fds s)(read_side s h \<mapsto> RdEnd evs')\<rparr>)
          \<and> avail evs' = rest"
    using assms by (intro read_reply_line_avail [where evs = evs]) (simp_all add: NL_def)
  then obtain evs' where
    r: "read_reply_line s h [] = (Some (CHR ''A'' # txt), s\<lparr>fds := (fds s)(read_side s h \<mapsto> RdEnd evs')\<rparr>)"
    and av: "avail evs' = rest" by auto
  have "cstr (CHR ''A'' # txt) = CHR ''A'' # txt"
    using assms(4) by (intro cstr_no_NUL) (simp add: NUL_def)
  with r av show ?thesis by (intro exI [of _ evs']) (simp add: get_status_string_def)
qed

lemma get_status_count:
  assumes "fds s (read_side s h) = Some (RdEnd evs)"
    and "avail evs = CHR ''A'' # dec_int k @ NL # rest"
    and "Suc (length (dec_int k)) < COMMAND_BUFFER_SIZE"
  shows "\<exists>evs'. get_status s h
                  = (if 0 \<le> k then min LONG_MAX k else -1,
                     s\<lparr>fds := (fds s)(read_side s h \<mapsto> RdEnd evs'),
                       errno := (if k < 0 then EIO else if LONG_MAX < k then ERANGE else errno s)\<rparr>)
               \<and> avail evs' = rest"
proof -
  from get_status_string_A [OF assms(1,2) dec_int_no_NL dec_int_no_NUL assms(3)]
  obtain evs' where
    r: "get_status_string s h = (Some (dec_int k), s\<lparr>fds := (fds s)(read_side s h \<mapsto> RdEnd evs')\<rparr>)"
    and av: "avail evs' = rest" by auto
  let ?s1 = "s\<lparr>fds := (fds s)(read_side s h \<mapsto> RdEnd evs')\<rparr>"
  note a = atol_dec_int_sat [of ?s1 k]
  consider "k < 0" | "0 \<le> k" "k \<le> LONG_MAX" | "LONG_MAX < k" by linarith
  then show ?thesis
  proof cases
    case 1
    then have "max LONG_MIN (min LONG_MAX k) < 0"
      by (simp add: LONG_MIN_def LONG_MAX_def)
    with r av 1 a show ?thesis
      by (intro exI [of _ evs']) (auto simp: get_status_def)
  next
    case 2
    then have "max LONG_MIN (min LONG_MAX k) = k" "\<not> k < LONG_MIN"
      by (simp_all add: LONG_MIN_def LONG_MAX_def)
    with r av 2 a show ?thesis
      by (intro exI [of _ evs']) (simp add: get_status_def)
  next
    case 3
    then have "max LONG_MIN (min LONG_MAX k) = LONG_MAX" "0 \<le> k" "0 \<le> LONG_MAX"
      by (simp_all add: LONG_MIN_def LONG_MAX_def)
    with r av 3 a show ?thesis
      by (intro exI [of _ evs']) (simp add: get_status_def)
  qed
qed

lemma store_nil [simp]: "store buffer off [] = buffer"
  by (simp add: store_def)

lemma store_append:
  "off \<le> length buffer \<Longrightarrow>
     store (store buffer off xs) (off + length xs) ys = store buffer off (xs @ ys)"
  by (simp add: store_def min_def add.commute add.left_commute)

lemma length_store_ge: "off \<le> length buffer \<Longrightarrow> off + length xs \<le> length (store buffer off xs)"
  by (simp add: store_def)

lemma length_store: "off + length xs \<le> length buffer \<Longrightarrow> length (store buffer off xs) = length buffer"
  by (simp add: store_def)

lemma store_0: "store buffer 0 xs = xs @ drop (length xs) buffer"
  by (simp add: store_def)

lemma read_payload_avail:
  assumes "fds s (read_side s h) = Some (RdEnd evs)"
    and "avail evs = payload @ rest"
    and "0 \<le> counter" and "int (length payload) = status - counter"
    and "nat counter \<le> length buffer"
  shows "\<exists>evs'. read_payload s h buffer status counter
                  = (True, store buffer (nat counter) payload,
                     s\<lparr>fds := (fds s)(read_side s h \<mapsto> RdEnd evs')\<rparr>)
               \<and> avail evs' = rest"
  using assms
proof (induction "length payload" arbitrary: s evs payload counter buffer rule: less_induct)
  case less
  show ?case
  proof (cases payload)
    case Nil
    with less.prems have "counter = status" by simp
    moreover have "s\<lparr>fds := (fds s)(read_side s h \<mapsto> RdEnd evs)\<rparr> = s"
      using less.prems(1) by (simp add: fun_upd_idem)
    ultimately show ?thesis using Nil less.prems(2)
      by (intro exI [of _ evs]) (simp add: read_payload.simps [of s])
  next
    case (Cons c cs)
    with less.prems have lt: "counter < status" by simp
    have n: "0 < nat (status - counter)" using lt by simp
    from less.prems(2) Cons have av: "avail evs = c # (cs @ rest)" by simp
    from safe_read_avail [OF less.prems(1) av n] obtain k evs1 where
      r: "safe_read s (read_side s h) (nat (status - counter))
            = (int k, take k (c # (cs @ rest)), s\<lparr>fds := (fds s)(read_side s h \<mapsto> RdEnd evs1)\<rparr>)"
      and k: "0 < k" "k \<le> nat (status - counter)"
      and av1: "avail evs1 = drop k (c # (cs @ rest))" by blast
    let ?s1 = "s\<lparr>fds := (fds s)(read_side s h \<mapsto> RdEnd evs1)\<rparr>"
    have kl: "k \<le> length payload" using k less.prems(4) by simp
    have "take k (payload @ rest) = take k payload" using kl by simp
    then have tk: "take k (c # (cs @ rest)) = take k payload" using Cons by simp
    have "drop k (payload @ rest) = drop k payload @ rest" using kl by simp
    then have dk: "avail evs1 = drop k payload @ rest" using av1 Cons by simp
    have "\<exists>evs'. read_payload ?s1 h (store buffer (nat counter) (take k payload)) status (counter + int k)
                  = (True, store (store buffer (nat counter) (take k payload)) (nat (counter + int k)) (drop k payload),
                     ?s1\<lparr>fds := (fds ?s1)(read_side ?s1 h \<mapsto> RdEnd evs')\<rparr>)
               \<and> avail evs' = rest"
    proof (rule less.hyps [where evs = evs1])
      show "length (drop k payload) < length payload" using k Cons by simp
      show "fds ?s1 (read_side ?s1 h) = Some (RdEnd evs1)" by simp
      show "avail evs1 = drop k payload @ rest" by (rule dk)
      show "0 \<le> counter + int k" using less.prems(3) by simp
      show "int (length (drop k payload)) = status - (counter + int k)"
        using less.prems(4) kl by simp
      show "nat (counter + int k) \<le> length (store buffer (nat counter) (take k payload))"
        using length_store_ge [OF less.prems(5), of "take k payload"] kl less.prems(3)
        by (simp add: nat_add_distrib)
    qed
    then obtain evs' where
      rp: "read_payload ?s1 h (store buffer (nat counter) (take k payload)) status (counter + int k)
                  = (True, store (store buffer (nat counter) (take k payload)) (nat (counter + int k)) (drop k payload),
                     ?s1\<lparr>fds := (fds ?s1)(read_side ?s1 h \<mapsto> RdEnd evs')\<rparr>)"
      and av': "avail evs' = rest" by blast
    have "nat (counter + int k) = nat counter + length (take k payload)"
      using kl less.prems(3) by (simp add: nat_add_distrib)
    then have st: "store (store buffer (nat counter) (take k payload)) (nat (counter + int k)) (drop k payload)
             = store buffer (nat counter) payload"
      using store_append [OF less.prems(5), of "take k payload" "drop k payload"] by simp
    have "read_payload s h buffer status counter
            = read_payload ?s1 h (store buffer (nat counter) (take k payload)) status (counter + int k)"
      using lt r k tk by (subst read_payload.simps) simp
    with rp st av' show ?thesis by (intro exI [of _ evs']) simp
  qed
qed

lemma read_payload_short:
  assumes "fds s (read_side s h) = Some (RdEnd evs)"
    and "int (length (avail evs)) < status - counter"
    and "h < length (from_remote s)" and "h < length (to_remote s)"
  shows "\<exists>b s'. read_payload s h buffer status counter = (False, b, s')
               \<and> read_side s' h = -1 \<and> write_side s' h = -1 \<and> errno s' = EIO
               \<and> fds s' (read_side s h) = None \<and> fds s' (write_side s h) = None"
  using assms
proof (induction "length (avail evs)" arbitrary: s evs counter buffer rule: less_induct)
  case less
  from less.prems(2) have lt: "counter < status" by simp
  show ?case
  proof (cases "avail evs")
    case Nil
    obtain rlen bytes s1 where
      r: "safe_read s (read_side s h) (nat (status - counter)) = (rlen, bytes, s1)"
      by (cases "safe_read s (read_side s h) (nat (status - counter))") auto
    with safe_read_none [OF less.prems(1) Nil, of "nat (status - counter)"] have le: "rlen \<le> 0"
      by simp
    from safe_read_tables [OF r] less.prems(3,4)
    have hl1: "h < length (from_remote s1)" "h < length (to_remote s1)" by simp_all
    from safe_read_tables [OF r]
    have sd: "read_side s1 h = read_side s h" "write_side s1 h = write_side s h"
      by (simp_all add: read_side_def write_side_def)
    from rmt_shutdown_sides [OF hl1, of EIO] rmt_shutdown_closes [of s1 h EIO] sd lt r le
    show ?thesis
      by (subst read_payload.simps) simp
  next
    case (Cons c cs)
    have n: "0 < nat (status - counter)" using lt by simp
    from safe_read_avail [OF less.prems(1) Cons n] obtain k evs1 where
      r: "safe_read s (read_side s h) (nat (status - counter))
            = (int k, take k (c # cs), s\<lparr>fds := (fds s)(read_side s h \<mapsto> RdEnd evs1)\<rparr>)"
      and k: "0 < k" "k \<le> nat (status - counter)" "k \<le> length (c # cs)"
      and av1: "avail evs1 = drop k (c # cs)" by blast
    let ?s1 = "s\<lparr>fds := (fds s)(read_side s h \<mapsto> RdEnd evs1)\<rparr>"
    let ?b1 = "store buffer (nat counter) (take k (c # cs))"
    have "\<exists>b s'. read_payload ?s1 h ?b1 status (counter + int k) = (False, b, s')
               \<and> read_side s' h = -1 \<and> write_side s' h = -1 \<and> errno s' = EIO
               \<and> fds s' (read_side ?s1 h) = None \<and> fds s' (write_side ?s1 h) = None"
    proof (rule less.hyps [where evs = evs1])
      show "length (avail evs1) < length (avail evs)" using av1 k Cons by simp
      show "fds ?s1 (read_side ?s1 h) = Some (RdEnd evs1)" by simp
      show "int (length (avail evs1)) < status - (counter + int k)"
        using av1 less.prems(2) Cons k by simp
      show "h < length (from_remote ?s1)" "h < length (to_remote ?s1)"
        using less.prems(3,4) by simp_all
    qed
    moreover have "read_payload s h buffer status counter
            = read_payload ?s1 h ?b1 status (counter + int k)"
      using lt r k by (subst read_payload.simps) simp
    ultimately show ?thesis by simp
  qed
qed

lemma full_write_tables:
  "from_remote (snd (full_write s fd buf)) = from_remote s"
  "to_remote (snd (full_write s fd buf)) = to_remote s"
  by (auto simp: full_write_def Let_def split: option.splits chan.splits)

lemma do_command_lengths:
  "length (from_remote (snd (do_command s h cmd))) = length (from_remote s)"
  "length (to_remote (snd (do_command s h cmd))) = length (to_remote s)"
  using full_write_tables [of s "write_side s h" cmd]
  by (auto simp: do_command_def split: prod.splits)

lemma read_reply_line_lengths:
  "length (from_remote (snd (read_reply_line s h buf))) = length (from_remote s)
   \<and> length (to_remote (snd (read_reply_line s h buf))) = length (to_remote s)"
proof (induction s h buf rule: read_reply_line.induct)
  case (1 s h buf)
  show ?case
  proof (cases "COMMAND_BUFFER_SIZE \<le> length buf")
    case True
    then show ?thesis by (subst (1 2) read_reply_line.simps) simp
  next
    case False
    obtain rlen bytes s1 where r: "safe_read s (read_side s h) 1 = (rlen, bytes, s1)"
      by (cases "safe_read s (read_side s h) 1") auto
    note t = safe_read_tables [OF r]
    show ?thesis
    proof (cases "rlen = 1 \<and> hd bytes \<noteq> NL")
      case True
      with "1.IH" [OF False r [symmetric] refl] have
        "length (from_remote (snd (read_reply_line s1 h (buf @ [hd bytes])))) = length (from_remote s1)
         \<and> length (to_remote (snd (read_reply_line s1 h (buf @ [hd bytes])))) = length (to_remote s1)"
        by simp
      moreover have "read_reply_line s h buf = read_reply_line s1 h (buf @ [hd bytes])"
        using False r True by (subst read_reply_line.simps) simp
      ultimately show ?thesis using t by simp
    next
      case False
      with \<open>\<not> COMMAND_BUFFER_SIZE \<le> length buf\<close> r t show ?thesis
        by (subst (1 2) read_reply_line.simps) auto
    qed
  qed
qed

lemma skip_message_lengths:
  "length (from_remote (snd (skip_message s h))) = length (from_remote s)
   \<and> length (to_remote (snd (skip_message s h))) = length (to_remote s)"
proof (induction s h rule: skip_message.induct)
  case (1 s h)
  obtain rlen bytes s1 where r: "safe_read s (read_side s h) 1 = (rlen, bytes, s1)"
    by (cases "safe_read s (read_side s h) 1") auto
  note t = safe_read_tables [OF r]
  show ?case
  proof (cases "rlen = 1 \<and> hd bytes = NL")
    case True
    with "1.IH" [OF r [symmetric] refl] have
      "length (from_remote (snd (skip_message s1 h))) = length (from_remote s1)
       \<and> length (to_remote (snd (skip_message s1 h))) = length (to_remote s1)"
      by simp
    moreover have "skip_message s h = skip_message s1 h"
      using r True by (subst skip_message.simps) simp
    ultimately show ?thesis using t by simp
  next
    case False
    with r t show ?thesis
      by (subst (1 2) skip_message.simps) auto
  qed
qed

lemma get_status_string_lengths:
  "length (from_remote (snd (get_status_string s h))) = length (from_remote s)
   \<and> length (to_remote (snd (get_status_string s h))) = length (to_remote s)"
proof -
  obtain r s1 where l: "read_reply_line s h [] = (r, s1)"
    by (cases "read_reply_line s h []") auto
  with read_reply_line_lengths [of s h "[]"] have
    l1: "length (from_remote s1) = length (from_remote s)" "length (to_remote s1) = length (to_remote s)"
    by simp_all
  obtain ok s2 where k: "skip_message s1 h = (ok, s2)"
    by (cases "skip_message s1 h") auto
  with skip_message_lengths [of s1 h] have
    l2: "length (from_remote s2) = length (from_remote s1)" "length (to_remote s2) = length (to_remote s1)"
    by simp_all
  show ?thesis
  proof (cases r)
    case None
    with l l1 show ?thesis by (simp add: get_status_string_def)
  next
    case (Some line)
    show ?thesis
    proof (cases "dropWhile (\<lambda>c. c = CHR '' '') (cstr line)")
      case Nil
      with l l1 Some show ?thesis
        by (simp add: get_status_string_def del: dropWhile_eq_Nil_conv)
    next
      case (Cons c rest)
      obtain err s2' where a: "atoi s2 rest = (err, s2')"
        by (cases "atoi s2 rest") auto
      from atoi_cases [OF a] l2 have
        "length (from_remote s2') = length (from_remote s1)"
        "length (to_remote s2') = length (to_remote s1)" by auto
      with Cons l l1 l2 k a Some show ?thesis
        by (cases ok) (simp_all add: get_status_string_def Let_def)
    qed
  qed
qed

lemma get_status_lengths:
  "length (from_remote (snd (get_status s h))) = length (from_remote s)
   \<and> length (to_remote (snd (get_status s h))) = length (to_remote s)"
  using get_status_string_lengths [of s h]
  by (auto simp: get_status_def Let_def split: prod.splits option.splits dest!: atol_cases)

lemma orderly_atol: "atol s str = (v, s') \<Longrightarrow> orderly s s' h"
  by (auto dest!: atol_cases simp: orderly_refl orderly_errno)

lemma orderly_atoi: "atoi s str = (v, s') \<Longrightarrow> orderly s s' h"
  by (auto dest!: atoi_cases simp: orderly_refl orderly_errno)

lemma orderly_read_reply_line:
  "h < length (from_remote s) \<Longrightarrow> h < length (to_remote s) \<Longrightarrow>
     orderly s (snd (read_reply_line s h buf)) h"
proof (induction s h buf rule: read_reply_line.induct)
  case (1 s h buf)
  note hl = "1.prems"
  show ?case
  proof (cases "COMMAND_BUFFER_SIZE \<le> length buf")
    case True
    with orderly_shutdown [OF hl, of EIO] show ?thesis
      by (subst read_reply_line.simps) simp
  next
    case False
    obtain rlen bytes s1 where r: "safe_read s (read_side s h) 1 = (rlen, bytes, s1)"
      by (cases "safe_read s (read_side s h) 1") auto
    note o1 = orderly_safe_read [OF r, of h]
    note hl1 = orderly_lengths(1) [OF o1 hl(1)] orderly_lengths(2) [OF o1 hl(2)]
    show ?thesis
    proof (cases "rlen = 1 \<and> hd bytes \<noteq> NL")
      case True
      with "1.IH" [OF False r [symmetric] refl] hl1
      have "orderly s1 (snd (read_reply_line s1 h (buf @ [hd bytes]))) h" by simp
      moreover have "read_reply_line s h buf = read_reply_line s1 h (buf @ [hd bytes])"
        using False r True by (subst read_reply_line.simps) simp
      ultimately show ?thesis using orderly_trans [OF o1] by simp
    next
      case c: False
      with False r o1 orderly_then_shutdown(1) [OF o1 hl, of EIO] show ?thesis
        by (subst read_reply_line.simps) auto
    qed
  qed
qed

lemma orderly_skip_message:
  "h < length (from_remote s) \<Longrightarrow> h < length (to_remote s) \<Longrightarrow>
     orderly s (snd (skip_message s h)) h"
proof (induction s h rule: skip_message.induct)
  case (1 s h)
  note hl = "1.prems"
  obtain rlen bytes s1 where r: "safe_read s (read_side s h) 1 = (rlen, bytes, s1)"
    by (cases "safe_read s (read_side s h) 1") auto
  note o1 = orderly_safe_read [OF r, of h]
  note hl1 = orderly_lengths(1) [OF o1 hl(1)] orderly_lengths(2) [OF o1 hl(2)]
  show ?case
  proof (cases "rlen = 1 \<and> hd bytes = NL")
    case True
    with "1.IH" [OF r [symmetric] refl] hl1
    have "orderly s1 (snd (skip_message s1 h)) h" by simp
    moreover have "skip_message s h = skip_message s1 h"
      using r True by (subst skip_message.simps) simp
    ultimately show ?thesis using orderly_trans [OF o1] by simp
  next
    case False
    with r o1 orderly_then_shutdown(1) [OF o1 hl, of EIO] show ?thesis
      by (subst skip_message.simps) auto
  qed
qed

lemma orderly_get_status_string:
  assumes "h < length (from_remote s)" and "h < length (to_remote s)"
  shows "orderly s (snd (get_status_string s h)) h"
proof -
  obtain r s1 where l: "read_reply_line s h [] = (r, s1)"
    by (cases "read_reply_line s h []") auto
  with orderly_read_reply_line [OF assms, of "[]"] have o1: "orderly s s1 h" by simp
  note hl1 = orderly_lengths(1) [OF o1 assms(1)] orderly_lengths(2) [OF o1 assms(2)]
  obtain ok s2 where k: "skip_message s1 h = (ok, s2)"
    by (cases "skip_message s1 h") auto
  with orderly_skip_message [OF hl1] have "orderly s1 s2 h" by simp
  with o1 have o2: "orderly s s2 h" by (rule orderly_trans)
  show ?thesis
  proof (cases r)
    case None
    with l o1 show ?thesis by (simp add: get_status_string_def)
  next
    case (Some line)
    show ?thesis
    proof (cases "dropWhile (\<lambda>c. c = CHR '' '') (cstr line)")
      case Nil
      with l Some orderly_then_shutdown(1) [OF o1 assms, of EIO] show ?thesis
        by (simp add: get_status_string_def del: dropWhile_eq_Nil_conv)
    next
      case (Cons c rest)
      obtain err s2' where a: "atoi s2 rest = (err, s2')"
        by (cases "atoi s2 rest") auto
      let ?s3 = "s2'\<lparr>errno := (if err \<le> 0 then EIO else err)\<rparr>"
      from orderly_trans [OF o2 orderly_atoi [OF a]] have "orderly s s2' h" .
      then have o3: "orderly s ?s3 h" by (rule orderly_errno)
      note o4 = orderly_then_shutdown(1) [OF o3 assms, of "errno ?s3"]
      note o5 = orderly_then_shutdown(1) [OF o1 assms, of EIO]
      from Cons l k a Some o1 o2 o3 o4 o5 show ?thesis
        by (cases ok) (simp_all add: get_status_string_def Let_def)
    qed
  qed
qed

lemma orderly_get_status:
  assumes "h < length (from_remote s)" and "h < length (to_remote s)"
  shows "orderly s (snd (get_status s h)) h"
proof -
  obtain r s1 where g: "get_status_string s h = (r, s1)"
    by (cases "get_status_string s h") auto
  with orderly_get_status_string [OF assms] have o1: "orderly s s1 h" by simp
  show ?thesis
  proof (cases r)
    case None
    with g o1 show ?thesis by (simp add: get_status_def)
  next
    case (Some status)
    obtain v s2 where a: "atol s1 status = (v, s2)"
      by (cases "atol s1 status") auto
    from orderly_trans [OF o1 orderly_atol [OF a]] have o2: "orderly s s2 h" .
    from Some g a o2 orderly_errno [OF o2, of EIO] show ?thesis
      by (simp add: get_status_def)
  qed
qed

lemma get_status_then_shutdown:
  assumes "h < length (from_remote s)" and "h < length (to_remote s)"
    and "get_status s h = (st, s2)"
  shows "read_side (rmt_shutdown s2 h e) h = -1"
    and "write_side (rmt_shutdown s2 h e) h = -1"
    and "errno (rmt_shutdown s2 h e) = e"
    and "fds (rmt_shutdown s2 h e) (read_side s h) = None"
    and "fds (rmt_shutdown s2 h e) (write_side s h) = None"
proof -
  from orderly_get_status [OF assms(1,2)] assms(3) have "orderly s s2 h" by simp
  from orderly_then_shutdown(2-6) [OF this assms(1,2), of e]
  show "read_side (rmt_shutdown s2 h e) h = -1"
    and "write_side (rmt_shutdown s2 h e) h = -1"
    and "errno (rmt_shutdown s2 h e) = e"
    and "fds (rmt_shutdown s2 h e) (read_side s h) = None"
    and "fds (rmt_shutdown s2 h e) (write_side s h) = None" .
qed

lemma get_status_None: "fst (get_status_string s h) = None \<Longrightarrow> fst (get_status s h) = -1"
  by (auto simp: get_status_def split: prod.splits option.splits)

lemma connectedE:
  assumes "connected s h evs"
  obtains sent where "fds s (write_side s h) = Some (WrEnd sent None)"
    and "fds s (read_side s h) = Some (RdEnd evs)"
    and "read_side s h \<noteq> write_side s h"
    and "h < length (from_remote s)" and "h < length (to_remote s)"
  using assms by (auto simp: connected_def split: option.splits chan.splits)

lemma get_status_string_E:
  assumes "fds s (read_side s h) = Some (RdEnd evs)"
    and "avail evs = replicate n (CHR '' '') @ CHR ''E'' # txt @ NL # rest"
    and "NL \<notin> set txt" and "n + Suc (length txt) < COMMAND_BUFFER_SIZE"
  shows "fst (get_status_string s h) = None"
proof -
  let ?line = "replicate n (CHR '' '') @ CHR ''E'' # txt"
  have "\<exists>evs'. read_reply_line s h []
            = (Some ([] @ ?line), s\<lparr>fds := (fds s)(read_side s h \<mapsto> RdEnd evs')\<rparr>)
          \<and> avail evs' = rest"
    using assms by (intro read_reply_line_avail [where evs = evs]) (auto simp: NL_def)
  then obtain evs' where
    r: "read_reply_line s h [] = (Some ?line, s\<lparr>fds := (fds s)(read_side s h \<mapsto> RdEnd evs')\<rparr>)"
    by auto
  have "takeWhile (\<lambda>c. c \<noteq> NUL) (replicate n (CHR '' '') @ CHR ''E'' # txt)
          = replicate n (CHR '' '') @ takeWhile (\<lambda>c. c \<noteq> NUL) (CHR ''E'' # txt)"
    by (rule takeWhile_append2) (simp add: NUL_def)
  then have "cstr ?line = replicate n (CHR '' '') @ CHR ''E'' # cstr txt"
    by (simp add: cstr_def NUL_def)
  moreover have "dropWhile (\<lambda>c. c = CHR '' '') (replicate n (CHR '' '') @ CHR ''E'' # cstr txt)
          = dropWhile (\<lambda>c. c = CHR '' '') (CHR ''E'' # cstr txt)"
    by (rule dropWhile_append2) simp
  ultimately have d: "dropWhile (\<lambda>c. c = CHR '' '') (cstr ?line) = CHR ''E'' # cstr txt"
    by simp
  obtain ok s2 where k: "skip_message (s\<lparr>fds := (fds s)(read_side s h \<mapsto> RdEnd evs')\<rparr>) h = (ok, s2)"
    by (cases "skip_message (s\<lparr>fds := (fds s)(read_side s h \<mapsto> RdEnd evs')\<rparr>) h") auto
  show ?thesis
    unfolding get_status_string_def r
    by (cases ok) (simp_all add: d k Let_def split: prod.splits)
qed

lemma rmt_read_payload:
  assumes "connected s h evs" and "0 \<le> k" and "k \<le> N" and "N \<le> LONG_MAX"
    and "int (length payload) = k"
    and "avail evs = CHR ''A'' # dec_int k @ NL # payload @ rest"
  shows "\<exists>s'. rmt_read s h buffer N = (k, payload @ drop (length payload) buffer, s')
             \<and> from_remote s' = from_remote s \<and> to_remote s' = to_remote s
             \<and> errno s' = errno s
             \<and> (\<exists>evs'. fds s' (read_side s h) = Some (RdEnd evs') \<and> avail evs' = rest)
             \<and> fds s' (write_side s h) \<noteq> None"
proof -
  from assms(1) obtain sent where w: "fds s (write_side s h) = Some (WrEnd sent None)"
    and rd: "fds s (read_side s h) = Some (RdEnd evs)"
    and ne: "read_side s h \<noteq> write_side s h"
    by (rule connectedE)
  let ?cmd = "''R'' @ dec_int N @ [NL]"
  let ?s1 = "s\<lparr>fds := (fds s)(write_side s h \<mapsto> WrEnd (sent @ ?cmd) None)\<rparr>"
  have c: "do_command s h ?cmd = (0, ?s1)" by (rule do_command_sent [OF w])
  have rd1: "fds ?s1 (read_side ?s1 h) = Some (RdEnd evs)" using rd ne by simp
  have "LONG_MIN \<le> k" "k \<le> LONG_MAX" using assms(2,3,4) by (simp_all add: LONG_MIN_def)
  then have len: "Suc (length (dec_int k)) < COMMAND_BUFFER_SIZE"
    using length_dec_int [of k] by (simp add: COMMAND_BUFFER_SIZE_def)
  from get_status_count [OF rd1 _ len, of "payload @ rest"] assms(6) obtain evs1 where
    g: "get_status ?s1 h = (if 0 \<le> k then min LONG_MAX k else -1,
          ?s1\<lparr>fds := (fds ?s1)(read_side ?s1 h \<mapsto> RdEnd evs1),
               errno := (if k < 0 then EIO else if LONG_MAX < k then ERANGE
                         else errno ?s1)\<rparr>)"
    and av1: "avail evs1 = payload @ rest" by auto
  let ?s2 = "?s1\<lparr>fds := (fds ?s1)(read_side s h \<mapsto> RdEnd evs1)\<rparr>"
  have g': "get_status ?s1 h = (k, ?s2)"
    using g assms(2) \<open>k \<le> LONG_MAX\<close> by simp
  have rd2: "fds ?s2 (read_side ?s2 h) = Some (RdEnd evs1)" by simp
  have "\<exists>evs'. read_payload ?s2 h buffer k 0
                  = (True, store buffer (nat 0) payload,
                     ?s2\<lparr>fds := (fds ?s2)(read_side ?s2 h \<mapsto> RdEnd evs')\<rparr>)
               \<and> avail evs' = rest"
    using av1 assms(5) by (intro read_payload_avail [OF rd2]) simp_all
  then obtain evs' where
    p: "read_payload ?s2 h buffer k 0
          = (True, store buffer 0 payload, ?s2\<lparr>fds := (fds ?s2)(read_side ?s2 h \<mapsto> RdEnd evs')\<rparr>)"
    and av': "avail evs' = rest" by auto
  let ?s3 = "?s2\<lparr>fds := (fds ?s2)(read_side ?s2 h \<mapsto> RdEnd evs')\<rparr>"
  have "rmt_read s h buffer N = (k, payload @ drop (length payload) buffer, ?s3)"
    using c g' p assms(2,3) by (simp add: rmt_read_def store_0)
  moreover have "fds ?s3 (read_side s h) = Some (RdEnd evs')" by simp
  moreover have "fds ?s3 (write_side s h) \<noteq> None" using ne by simp
  ultimately show ?thesis using av' by (intro exI [of _ ?s3]) auto
qed

lemma rmt_read_out_of_range:
  assumes "connected s h evs"
    and "get_status (snd (do_command s h (''R'' @ dec_int N @ [NL]))) h = (st, s2)"
    and "\<not> (0 \<le> st \<and> st \<le> N)"
  shows "\<exists>s'. rmt_read s h buffer N = (-1, buffer, s')
             \<and> errno s' = EIO \<and> read_side s' h = -1 \<and> write_side s' h = -1
             \<and> fds s' (read_side s h) = None \<and> fds s' (write_side s h) = None"
proof -
  from assms(1) obtain sent where w: "fds s (write_side s h) = Some (WrEnd sent None)"
    and hl: "h < length (from_remote s)" "h < length (to_remote s)"
    by (rule connectedE)
  let ?cmd = "''R'' @ dec_int N @ [NL]"
  let ?s1 = "s\<lparr>fds := (fds s)(write_side s h \<mapsto> WrEnd (sent @ ?cmd) None)\<rparr>"
  have c: "do_command s h ?cmd = (0, ?s1)" by (rule do_command_sent [OF w])
  with assms(2) have g: "get_status ?s1 h = (st, s2)" by simp
  have hl1: "h < length (from_remote ?s1)" "h < length (to_remote ?s1)" using hl by simp_all
  from get_status_then_shutdown [OF hl1 g, of EIO] c g assms(3) show ?thesis
    by (simp add: rmt_read_def)
qed

lemma rmt_read_short_payload:
  assumes "connected s h evs" and "0 \<le> k" and "k \<le> N" and "N \<le> LONG_MAX"
    and "int (length bytes) < k"
    and "avail evs = CHR ''A'' # dec_int k @ NL # bytes"
  shows "\<exists>b s'. rmt_read s h buffer N = (-1, b, s')
             \<and> errno s' = EIO \<and> read_side s' h = -1 \<and> write_side s' h = -1
             \<and> fds s' (read_side s h) = None \<and> fds s' (write_side s h) = None"
proof -
  from assms(1) obtain sent where w: "fds s (write_side s h) = Some (WrEnd sent None)"
    and rd: "fds s (read_side s h) = Some (RdEnd evs)"
    and ne: "read_side s h \<noteq> write_side s h"
    and hl: "h < length (from_remote s)" "h < length (to_remote s)"
    by (rule connectedE)
  let ?cmd = "''R'' @ dec_int N @ [NL]"
  let ?s1 = "s\<lparr>fds := (fds s)(write_side s h \<mapsto> WrEnd (sent @ ?cmd) None)\<rparr>"
  have c: "do_command s h ?cmd = (0, ?s1)" by (rule do_command_sent [OF w])
  have rd1: "fds ?s1 (read_side ?s1 h) = Some (RdEnd evs)" using rd ne by simp
  have "LONG_MIN \<le> k" "k \<le> LONG_MAX" using assms(2,3,4) by (simp_all add: LONG_MIN_def)
  then have len: "Suc (length (dec_int k)) < COMMAND_BUFFER_SIZE"
    using length_dec_int [of k] by (simp add: COMMAND_BUFFER_SIZE_def)
  from get_status_count [OF rd1 assms(6) len] obtain evs1 where
    g: "get_status ?s1 h = (if 0 \<le> k then min LONG_MAX k else -1,
          ?s1\<lparr>fds := (fds ?s1)(read_side ?s1 h \<mapsto> RdEnd evs1),
               errno := (if k < 0 then EIO else if LONG_MAX < k then ERANGE
                         else errno ?s1)\<rparr>)"
    and av1: "avail evs1 = bytes" by auto
  let ?s2 = "?s1\<lparr>fds := (fds ?s1)(read_side s h \<mapsto> RdEnd evs1)\<rparr>"
  have g': "get_status ?s1 h = (k, ?s2)"
    using g assms(2) \<open>k \<le> LONG_MAX\<close> by simp
  have rd2: "fds ?s2 (read_side ?s2 h) = Some (RdEnd evs1)" by simp
  have "\<exists>b s'. read_payload ?s2 h buffer k 0 = (False, b, s')
               \<and> read_side s' h = -1 \<and> write_side s' h = -1 \<and> errno s' = EIO
               \<and> fds s' (read_side ?s2 h) = None \<and> fds s' (write_side ?s2 h) = None"
    using av1 assms(5) hl by (intro read_payload_short [OF rd2]) simp_all
  then obtain b s' where "read_payload ?s2 h buffer k 0 = (False, b, s')"
    and "read_side s' h = -1" "write_side s' h = -1" "errno s' = EIO"
    and "fds s' (read_side s h) = None" "fds s' (write_side s h) = None" by auto
  with c g' assms(2,3) show ?thesis by (simp add: rmt_read_def)
qed

lemma skip_message_one:
  assumes "fds s (read_side s h) = Some (RdEnd evs)" and "avail evs = c # cs" and "c \<noteq> NL"
  shows "\<exists>evs'. skip_message s h = (True, s\<lparr>fds := (fds s)(read_side s h \<mapsto> RdEnd evs')\<rparr>)
               \<and> avail evs' = cs"
proof -
  from safe_read_one [OF assms(1,2)] obtain evs' where
    "safe_read s (read_side s h) 1 = (1, [c], s\<lparr>fds := (fds s)(read_side s h \<mapsto> RdEnd evs')\<rparr>)"
    and "avail evs' = cs" by blast
  with assms(3) show ?thesis
    by (intro exI [of _ evs']) (simp add: skip_message.simps [of s])
qed

lemma atoi_dec_int: "- (2 ^ 31) \<le> e \<Longrightarrow> e < 2 ^ 31 \<Longrightarrow> atoi s (dec_int e) = (e, s)"
proof -
  assume a: "- (2 ^ 31) \<le> e" "e < 2 ^ 31"
  then have "atol s (dec_int e) = (e, s)"
    by (intro atol_dec_int) (simp_all add: LONG_MIN_def LONG_MAX_def)
  moreover have "signed_take_bit 31 e = e"
    using a by (intro signed_take_bit_int_eq_self) simp_all
  ultimately show ?thesis by (simp add: atoi_def)
qed

lemma get_status_E_errno:
  assumes "fds s (read_side s h) = Some (RdEnd evs)"
    and "avail evs = CHR ''E'' # dec_int e @ NL # c # cs" and "c \<noteq> NL"
    and "0 < e" and "e < 2 ^ 31"
  shows "\<exists>evs'. get_status s h
                  = (-1, s\<lparr>fds := (fds s)(read_side s h \<mapsto> RdEnd evs'), errno := e\<rparr>)
               \<and> avail evs' = cs"
proof -
  have "LONG_MIN \<le> e" "e \<le> LONG_MAX" using assms(4,5) by (simp_all add: LONG_MIN_def LONG_MAX_def)
  then have len: "length [] + length (CHR ''E'' # dec_int e) < COMMAND_BUFFER_SIZE"
    using length_dec_int [of e] by (simp add: COMMAND_BUFFER_SIZE_def)
  have nl: "NL \<notin> set (CHR ''E'' # dec_int e)"
    using dec_int_no_NL [of e] by (simp add: NL_def)
  have "\<exists>evs1. read_reply_line s h []
            = (Some ([] @ CHR ''E'' # dec_int e), s\<lparr>fds := (fds s)(read_side s h \<mapsto> RdEnd evs1)\<rparr>)
          \<and> avail evs1 = c # cs"
    using assms(2) by (intro read_reply_line_avail [OF assms(1) _ nl len]) simp
  then obtain evs1 where
    r: "read_reply_line s h []
          = (Some (CHR ''E'' # dec_int e), s\<lparr>fds := (fds s)(read_side s h \<mapsto> RdEnd evs1)\<rparr>)"
    and av1: "avail evs1 = c # cs" by auto
  let ?s1 = "s\<lparr>fds := (fds s)(read_side s h \<mapsto> RdEnd evs1)\<rparr>"
  have "fds ?s1 (read_side ?s1 h) = Some (RdEnd evs1)" by simp
  from skip_message_one [OF this av1 assms(3)] obtain evs' where
    k: "skip_message ?s1 h = (True, ?s1\<lparr>fds := (fds ?s1)(read_side ?s1 h \<mapsto> RdEnd evs')\<rparr>)"
    and av': "avail evs' = cs" by blast
  have cs: "cstr (CHR ''E'' # dec_int e) = CHR ''E'' # dec_int e"
    using dec_int_no_NUL [of e] by (intro cstr_no_NUL) (simp add: NUL_def)
  have at: "atoi s' (dec_int e) = (e, s')" for s'
    using assms(4,5) by (intro atoi_dec_int) simp_all
  have "get_status_string s h
          = (None, s\<lparr>fds := (fds s)(read_side s h \<mapsto> RdEnd evs'), errno := e\<rparr>)"
    unfolding get_status_string_def r using assms(4) by (simp add: cs k at Let_def)
  then show ?thesis using av' by (intro exI [of _ evs']) (simp add: get_status_def)
qed

lemma rmt_write_sent:
  assumes "fds s (write_side s h) = Some (WrEnd sent None)" and "len = int (length buffer)"
  shows "rmt_write s h buffer len
           = (case get_status (s\<lparr>fds := (fds s)(write_side s h \<mapsto>
                                   WrEnd (sent @ ''W'' @ dec_int len @ [NL] @ buffer) None)\<rparr>) h of
                (r, s3) \<Rightarrow>
                  if r < 0 then (0, s3)
                  else if r = len then (len, s3)
                  else (r, rmt_shutdown s3 h EIO))"
  unfolding assms(2)
proof -
  let ?len = "int (length buffer)"
  let ?cmd = "''W'' @ dec_int ?len @ [NL]"
  let ?s1 = "s\<lparr>fds := (fds s)(write_side s h \<mapsto> WrEnd (sent @ ?cmd) None)\<rparr>"
  have c: "do_command s h ?cmd = (0, ?s1)" by (rule do_command_sent [OF assms(1)])
  have "fds ?s1 (write_side ?s1 h) = Some (WrEnd (sent @ ?cmd) None)" by simp
  from full_write_all [OF this, of "take (nat ?len) buffer"]
  have f: "full_write ?s1 (write_side ?s1 h) (take (nat ?len) buffer)
             = (length buffer, s\<lparr>fds := (fds s)(write_side s h \<mapsto>
                                   WrEnd (sent @ ''W'' @ dec_int ?len @ [NL] @ buffer) None)\<rparr>)"
    by simp
  show "rmt_write s h buffer ?len
           = (case get_status (s\<lparr>fds := (fds s)(write_side s h \<mapsto>
                                   WrEnd (sent @ ''W'' @ dec_int ?len @ [NL] @ buffer) None)\<rparr>) h of
                (r, s3) \<Rightarrow>
                  if r < 0 then (0, s3)
                  else if r = ?len then (?len, s3)
                  else (r, rmt_shutdown s3 h EIO))"
    using c f by (simp add: rmt_write_def)
qed

lemma do_command_wire:
  assumes "connected s h evs"
  shows "\<exists>s1. do_command s h cmd = (0, s1) \<and> wire s1 h = wire s h @ cmd"
proof -
  from assms obtain sent where w: "fds s (write_side s h) = Some (WrEnd sent None)"
    by (rule connectedE)
  from do_command_sent [OF w, of cmd] w show ?thesis by (simp add: wire_def)
qed

lemma read_mtget_avail:
  assumes "fds s (read_side s h) = Some (RdEnd evs)"
    and "avail evs = bytes @ rest"
    and "int (length bytes) = status"
    and "p \<le> length buf"
  shows "\<exists>evs'. read_mtget s h buf p status
                  = (True, store buf p bytes, s\<lparr>fds := (fds s)(read_side s h \<mapsto> RdEnd evs')\<rparr>)
               \<and> avail evs' = rest"
  using assms
proof (induction "length bytes" arbitrary: s evs bytes status p buf rule: less_induct)
  case less
  show ?case
  proof (cases bytes)
    case Nil
    with less.prems have "status = 0" by simp
    moreover have "s\<lparr>fds := (fds s)(read_side s h \<mapsto> RdEnd evs)\<rparr> = s"
      using less.prems(1) by (simp add: fun_upd_idem)
    ultimately show ?thesis using Nil less.prems(2)
      by (intro exI [of _ evs]) (simp add: read_mtget.simps [of s])
  next
    case (Cons c cs)
    with less.prems have lt: "0 < status" by auto
    have n: "0 < nat status" using lt by simp
    from less.prems(2) Cons have av: "avail evs = c # (cs @ rest)" by simp
    from safe_read_avail [OF less.prems(1) av n] obtain k evs1 where
      r: "safe_read s (read_side s h) (nat status)
            = (int k, take k (c # (cs @ rest)), s\<lparr>fds := (fds s)(read_side s h \<mapsto> RdEnd evs1)\<rparr>)"
      and k: "0 < k" "k \<le> nat status"
      and av1: "avail evs1 = drop k (c # (cs @ rest))" by blast
    let ?s1 = "s\<lparr>fds := (fds s)(read_side s h \<mapsto> RdEnd evs1)\<rparr>"
    have kl: "k \<le> length bytes" using k less.prems(3) by auto
    have "take k (bytes @ rest) = take k bytes" using kl by simp
    then have tk: "take k (c # (cs @ rest)) = take k bytes" using Cons by simp
    have "drop k (bytes @ rest) = drop k bytes @ rest" using kl by simp
    then have dk: "avail evs1 = drop k bytes @ rest" using av1 Cons by simp
    have "\<exists>evs'. read_mtget ?s1 h (store buf p (take k bytes)) (p + nat (int k)) (status - int k)
                  = (True, store (store buf p (take k bytes)) (p + nat (int k)) (drop k bytes),
                     ?s1\<lparr>fds := (fds ?s1)(read_side ?s1 h \<mapsto> RdEnd evs')\<rparr>)
               \<and> avail evs' = rest"
    proof (rule less.hyps [where evs = evs1])
      show "length (drop k bytes) < length bytes" using k Cons by simp
      show "fds ?s1 (read_side ?s1 h) = Some (RdEnd evs1)" by simp
      show "avail evs1 = drop k bytes @ rest" by (rule dk)
      show "int (length (drop k bytes)) = status - int k"
        using less.prems(3) kl by auto
      show "p + nat (int k) \<le> length (store buf p (take k bytes))"
        using length_store_ge [OF less.prems(4), of "take k bytes"] kl by simp
    qed
    then obtain evs' where
      rp: "read_mtget ?s1 h (store buf p (take k bytes)) (p + nat (int k)) (status - int k)
                  = (True, store (store buf p (take k bytes)) (p + nat (int k)) (drop k bytes),
                     ?s1\<lparr>fds := (fds ?s1)(read_side ?s1 h \<mapsto> RdEnd evs')\<rparr>)"
      and av': "avail evs' = rest" by blast
    have "p + nat (int k) = p + length (take k bytes)" using kl by simp
    then have st: "store (store buf p (take k bytes)) (p + nat (int k)) (drop k bytes)
             = store buf p bytes"
      using store_append [OF less.prems(4), of "take k bytes" "drop k bytes"] by simp
    have "read_mtget s h buf p status
            = read_mtget ?s1 h (store buf p (take k bytes)) (p + nat (int k)) (status - int k)"
      using lt r k tk by (subst read_mtget.simps) simp
    with rp st av' show ?thesis by (intro exI [of _ evs']) simp
  qed
qed

lemma swap_bytes_nth:
  assumes "even counter" and "even n" and "n \<le> length buf"
  shows "length (swap_bytes counter n buf) = length buf
       \<and> (\<forall>i < length buf.
            swap_bytes counter n buf ! i
              = (if counter \<le> i \<and> i < n then buf ! (if even i then i + 1 else i - 1) else buf ! i))"
  using assms
proof (induction counter n buf rule: swap_bytes.induct)
  case (1 counter n buf)
  show ?case
  proof (cases "counter < n")
    case False
    then have "swap_bytes counter n buf = buf" by (simp add: swap_bytes.simps [of counter])
    moreover have "\<not> (counter \<le> i \<and> i < n)" for i using False by simp
    ultimately show ?thesis by auto
  next
    case True
    let ?buf' = "buf[counter := buf ! (counter + 1), counter + 1 := buf ! counter]"
    have c1: "counter + 1 < n"
      using True "1.prems"(1,2) by presburger
    have eq: "swap_bytes counter n buf = swap_bytes (counter + 2) n ?buf'"
      using True by (subst swap_bytes.simps) simp
    have ih: "length (swap_bytes (counter + 2) n ?buf') = length ?buf'
       \<and> (\<forall>i < length ?buf'.
            swap_bytes (counter + 2) n ?buf' ! i
              = (if counter + 2 \<le> i \<and> i < n then ?buf' ! (if even i then i + 1 else i - 1)
                 else ?buf' ! i))"
      using "1.prems" by (intro "1.IH" [OF True]) simp_all
    show ?thesis
    proof (intro conjI allI impI)
      show "length (swap_bytes counter n buf) = length buf" using ih eq by simp
    next
      fix i assume i: "i < length buf"
      with ih have s: "swap_bytes (counter + 2) n ?buf' ! i
              = (if counter + 2 \<le> i \<and> i < n then ?buf' ! (if even i then i + 1 else i - 1)
                 else ?buf' ! i)" by simp
      consider "i < counter" | "i = counter" | "i = counter + 1" | "counter + 2 \<le> i"
        by linarith
      then show "swap_bytes counter n buf ! i
              = (if counter \<le> i \<and> i < n then buf ! (if even i then i + 1 else i - 1) else buf ! i)"
      proof cases
        case 1
        then show ?thesis using s eq by simp
      next
        case 2
        then show ?thesis using s eq c1 "1.prems" by simp
      next
        case 3
        then show ?thesis using s eq c1 "1.prems" by simp
      next
        case 4
        have "(if even i then i + 1 else i - 1) \<noteq> counter"
          "(if even i then i + 1 else i - 1) \<noteq> counter + 1"
          using 4 "1.prems"(1) by (cases "even i"; simp; presburger)+
        then show ?thesis using s eq 4 by simp
      qed
    qed
  qed
qed

lemma rmt_ioctl_get_negative:
  assumes "connected s h evs"
    and "k < 0" and "Suc (length (dec_int k)) < COMMAND_BUFFER_SIZE"
    and "avail evs = CHR ''A'' # dec_int k @ NL # rest"
  shows "\<exists>s'. rmt_ioctl lay s h (MTIOCGET buf) = (-1, MTIOCGET buf, s')
            \<and> errno s' = EIO \<and> from_remote s' = from_remote s \<and> to_remote s' = to_remote s
            \<and> fds s' (read_side s h) \<noteq> None \<and> fds s' (write_side s h) \<noteq> None"
proof -
  from assms(1) obtain sent where w: "fds s (write_side s h) = Some (WrEnd sent None)"
    and rd: "fds s (read_side s h) = Some (RdEnd evs)"
    and ne: "read_side s h \<noteq> write_side s h"
    by (rule connectedE)
  let ?s1 = "s\<lparr>fds := (fds s)(write_side s h \<mapsto> WrEnd (sent @ ''S'') None)\<rparr>"
  have c: "do_command s h ''S'' = (0, ?s1)" by (rule do_command_sent [OF w])
  have rd1: "fds ?s1 (read_side ?s1 h) = Some (RdEnd evs)" using rd ne by simp
  from get_status_count [OF rd1 assms(4,3)] obtain evs1 where
    "get_status ?s1 h = (if 0 \<le> k then min LONG_MAX k else -1,
          ?s1\<lparr>fds := (fds ?s1)(read_side ?s1 h \<mapsto> RdEnd evs1),
               errno := (if k < 0 then EIO else if LONG_MAX < k then ERANGE
                         else errno ?s1)\<rparr>)" by blast
  then have "get_status ?s1 h
      = (-1, ?s1\<lparr>fds := (fds ?s1)(read_side s h \<mapsto> RdEnd evs1), errno := EIO\<rparr>)"
    using assms(2) by simp
  with c ne show ?thesis by (simp add: rmt_ioctl_def)
qed

lemma rmt_ioctl_get_failed:
  assumes "connected s h evs"
    and "get_status (snd (do_command s h ''S'')) h = (-1, s2)"
  shows "rmt_ioctl lay s h (MTIOCGET buf) = (-1, MTIOCGET buf, s2)"
proof -
  from assms(1) obtain sent where w: "fds s (write_side s h) = Some (WrEnd sent None)"
    by (rule connectedE)
  from do_command_sent [OF w, of "''S''"] assms(2) show ?thesis
    by (simp add: rmt_ioctl_def)
qed

lemma rmt_ioctl_get_other:
  assumes "connected s h evs"
    and "get_status (snd (do_command s h ''S'')) h = (st, s2)"
    and "st \<noteq> -1" and "st \<noteq> int (mtget_size lay)"
  shows "\<exists>s'. rmt_ioctl lay s h (MTIOCGET buf) = (-1, MTIOCGET buf, s')
            \<and> errno s' = EIO \<and> read_side s' h = -1 \<and> write_side s' h = -1
            \<and> fds s' (read_side s h) = None \<and> fds s' (write_side s h) = None"
proof -
  from assms(1) obtain sent where w: "fds s (write_side s h) = Some (WrEnd sent None)"
    and hl: "h < length (from_remote s)" "h < length (to_remote s)"
    by (rule connectedE)
  let ?s1 = "s\<lparr>fds := (fds s)(write_side s h \<mapsto> WrEnd (sent @ ''S'') None)\<rparr>"
  have c: "do_command s h ''S'' = (0, ?s1)" by (rule do_command_sent [OF w])
  with assms(2) have g: "get_status ?s1 h = (st, s2)" by simp
  have hl1: "h < length (from_remote ?s1)" "h < length (to_remote ?s1)" using hl by simp_all
  from get_status_then_shutdown [OF hl1 g, of EIO] c g assms(3,4) show ?thesis
    by (simp add: rmt_ioctl_def)
qed

lemma rmt_ioctl_get_mismatch:
  assumes "connected s h evs"
    and "0 \<le> k" and "k \<noteq> int (mtget_size lay)" and "int (mtget_size lay) < LONG_MAX"
    and "Suc (length (dec_int k)) < COMMAND_BUFFER_SIZE"
    and "avail evs = CHR ''A'' # dec_int k @ NL # rest"
  shows "\<exists>s'. rmt_ioctl lay s h (MTIOCGET buf) = (-1, MTIOCGET buf, s')
            \<and> errno s' = EIO \<and> read_side s' h = -1 \<and> write_side s' h = -1
            \<and> fds s' (read_side s h) = None \<and> fds s' (write_side s h) = None"
proof -
  from assms(1) obtain sent where w: "fds s (write_side s h) = Some (WrEnd sent None)"
    and rd: "fds s (read_side s h) = Some (RdEnd evs)"
    and ne: "read_side s h \<noteq> write_side s h"
    by (rule connectedE)
  let ?s1 = "s\<lparr>fds := (fds s)(write_side s h \<mapsto> WrEnd (sent @ ''S'') None)\<rparr>"
  have c: "do_command s h ''S'' = (0, ?s1)" by (rule do_command_sent [OF w])
  have rd1: "fds ?s1 (read_side ?s1 h) = Some (RdEnd evs)" using rd ne by simp
  from get_status_count [OF rd1 assms(6,5)] obtain s2 where
    g: "get_status ?s1 h = (if 0 \<le> k then min LONG_MAX k else -1, s2)" by blast
  let ?st = "min LONG_MAX k"
  from g assms(2) c have g': "get_status (snd (do_command s h ''S'')) h = (?st, s2)" by simp
  have "?st \<noteq> -1" using assms(2) by (simp add: LONG_MAX_def min_def)
  moreover have "?st \<noteq> int (mtget_size lay)" using assms(3,4) by (simp add: min_def)
  ultimately show ?thesis by (rule rmt_ioctl_get_other [OF assms(1) g'])
qed

lemma rmt_ioctl_get_bytes:
  assumes "connected s h evs"
    and "length buf = mtget_size lay" and "even (mtget_size lay)"
    and "int (mtget_size lay) \<le> LONG_MAX"
    and "length bytes = mtget_size lay"
    and "avail evs = CHR ''A'' # dec_int (int (mtget_size lay)) @ NL # bytes @ rest"
  shows "\<exists>buf' s'. rmt_ioctl lay s h (MTIOCGET buf) = (0, MTIOCGET buf', s')
            \<and> length buf' = length bytes
            \<and> (check_field lay bytes < 256 \<longrightarrow> buf' = bytes)
            \<and> (255 < check_field lay bytes \<longrightarrow>
                  (\<forall>i < length bytes. buf' ! i = bytes ! (if even i then i + 1 else i - 1)))
            \<and> from_remote s' = from_remote s \<and> to_remote s' = to_remote s
            \<and> (\<exists>evs'. fds s' (read_side s h) = Some (RdEnd evs') \<and> avail evs' = rest)
            \<and> wire s' h = wire s h @ ''S''"
proof -
  from assms(1) obtain sent where w: "fds s (write_side s h) = Some (WrEnd sent None)"
    and rd: "fds s (read_side s h) = Some (RdEnd evs)"
    and ne: "read_side s h \<noteq> write_side s h"
    by (rule connectedE)
  let ?n = "mtget_size lay"
  let ?s1 = "s\<lparr>fds := (fds s)(write_side s h \<mapsto> WrEnd (sent @ ''S'') None)\<rparr>"
  have c: "do_command s h ''S'' = (0, ?s1)" by (rule do_command_sent [OF w])
  have rd1: "fds ?s1 (read_side ?s1 h) = Some (RdEnd evs)" using rd ne by simp
  have "LONG_MIN \<le> int ?n" by (simp add: LONG_MIN_def)
  then have len: "Suc (length (dec_int (int ?n))) < COMMAND_BUFFER_SIZE"
    using length_dec_int [of "int ?n"] assms(4) by (simp add: COMMAND_BUFFER_SIZE_def)
  from get_status_count [OF rd1 assms(6) len] obtain evs1 where
    "get_status ?s1 h = (if 0 \<le> int ?n then min LONG_MAX (int ?n) else -1,
          ?s1\<lparr>fds := (fds ?s1)(read_side ?s1 h \<mapsto> RdEnd evs1),
               errno := (if int ?n < 0 then EIO else if LONG_MAX < int ?n then ERANGE
                         else errno ?s1)\<rparr>)"
    and av1: "avail evs1 = bytes @ rest" by blast
  then have g: "get_status ?s1 h = (int ?n, ?s1\<lparr>fds := (fds ?s1)(read_side s h \<mapsto> RdEnd evs1)\<rparr>)"
    using assms(4) by simp
  let ?s2 = "?s1\<lparr>fds := (fds ?s1)(read_side s h \<mapsto> RdEnd evs1)\<rparr>"
  have rd2: "fds ?s2 (read_side ?s2 h) = Some (RdEnd evs1)" by simp
  have "\<exists>evs'. read_mtget ?s2 h buf 0 (int ?n)
                  = (True, store buf 0 bytes, ?s2\<lparr>fds := (fds ?s2)(read_side ?s2 h \<mapsto> RdEnd evs')\<rparr>)
               \<and> avail evs' = rest"
    using av1 assms(5) by (intro read_mtget_avail [OF rd2]) simp_all
  then obtain evs' where
    m: "read_mtget ?s2 h buf 0 (int ?n)
          = (True, bytes, ?s2\<lparr>fds := (fds ?s2)(read_side ?s2 h \<mapsto> RdEnd evs')\<rparr>)"
    and av': "avail evs' = rest" using assms(2,5) by (auto simp: store_0)
  let ?s3 = "?s2\<lparr>fds := (fds ?s2)(read_side ?s2 h \<mapsto> RdEnd evs')\<rparr>"
  let ?buf' = "if check_field lay bytes < 256 then bytes else swap_bytes 0 ?n bytes"
  have r: "rmt_ioctl lay s h (MTIOCGET buf) = (0, MTIOCGET ?buf', ?s3)"
    using c g m by (simp add: rmt_ioctl_def)
  have sw: "length (swap_bytes 0 ?n bytes) = length bytes
       \<and> (\<forall>i < length bytes.
            swap_bytes 0 ?n bytes ! i
              = (if 0 \<le> i \<and> i < ?n then bytes ! (if even i then i + 1 else i - 1) else bytes ! i))"
    using assms(3,5) by (intro swap_bytes_nth) simp_all
  have "length ?buf' = length bytes" using sw by simp
  moreover have "check_field lay bytes < 256 \<longrightarrow> ?buf' = bytes" by simp
  moreover have "255 < check_field lay bytes \<longrightarrow>
                  (\<forall>i < length bytes. ?buf' ! i = bytes ! (if even i then i + 1 else i - 1))"
    using sw assms(5) by simp
  moreover have "fds ?s3 (read_side s h) = Some (RdEnd evs')" by simp
  moreover have "wire ?s3 h = wire s h @ ''S''" using w ne by (simp add: wire_def)
  ultimately show ?thesis using r av'
    by (intro exI [of _ ?buf'] exI [of _ ?s3]) (simp del: One_nat_def)
qed

lemma strcat_if_shown:
  "strcat_if oflags (snd e) (CHR ''|'' # fst e) buf
     = (if shown oflags e then buf @ CHR ''|'' # fst e else buf)"
  by (simp add: strcat_if_def shown_def split: option.splits)

lemma foldl_strcat_if:
  "foldl (\<lambda>b e. strcat_if oflags (snd e) (CHR ''|'' # fst e) b) buf tbl
     = buf @ concat (map (\<lambda>e. CHR ''|'' # fst e) (filter (shown oflags) tbl))"
proof (induction tbl arbitrary: buf)
  case Nil
  show ?case by simp
next
  case (Cons e tbl)
  let ?f = "\<lambda>b e. strcat_if oflags (snd e) (CHR ''|'' # fst e) b"
  have "foldl ?f buf (e # tbl) = foldl ?f (?f buf e) tbl" by simp
  also have "\<dots> = ?f buf e @ concat (map (\<lambda>e. CHR ''|'' # fst e) (filter (shown oflags) tbl))"
    by (rule Cons.IH)
  also have "\<dots> = buf @ concat (map (\<lambda>e. CHR ''|'' # fst e) (filter (shown oflags) (e # tbl)))"
    by (simp add: strcat_if_shown)
  finally show ?case .
qed

lemma join_bar_concat: "join_bar (a # names) = a @ concat (map (\<lambda>n. CHR ''|'' # n) names)"
  by (induction names arbitrary: a) simp_all

lemma encode_oflags_table:
  "encode_oflags k oflags =
     (if oflags AND O_ACCMODE k = O_RDONLY k
      then Inr (dec_int oflags @ '' '' @ join_bar (''O_RDONLY'' # shown_flags k oflags))
      else if oflags AND O_ACCMODE k = O_RDWR k
      then Inr (dec_int oflags @ '' '' @ join_bar (''O_RDWR'' # shown_flags k oflags))
      else if oflags AND O_ACCMODE k = O_WRONLY k
      then Inr (dec_int oflags @ '' '' @ join_bar (''O_WRONLY'' # shown_flags k oflags))
      else Inl Abort)"
proof -
  have chain: "strcat_if oflags (Some (O_TRUNC k)) ''|O_TRUNC''
         (strcat_if oflags (O_SYNC k) ''|O_SYNC''
         (strcat_if oflags (O_RSYNC k) ''|O_RSYNC''
         (strcat_if oflags (Some (O_NONBLOCK k)) ''|O_NONBLOCK''
         (strcat_if oflags (O_NOCTTY k) ''|O_NOCTTY''
         (strcat_if oflags (O_LARGEFILE k) ''|O_LARGEFILE''
         (strcat_if oflags (Some (O_EXCL k)) ''|O_EXCL''
         (strcat_if oflags (O_DSYNC k) ''|O_DSYNC''
         (strcat_if oflags (Some (O_CREAT k)) ''|O_CREAT''
         (strcat_if oflags (O_APPEND k) ''|O_APPEND'' buf0)))))))))
       = buf0 @ concat (map (\<lambda>n. CHR ''|'' # n) (shown_flags k oflags))" for buf0
  proof -
    have "strcat_if oflags (Some (O_TRUNC k)) ''|O_TRUNC''
         (strcat_if oflags (O_SYNC k) ''|O_SYNC''
         (strcat_if oflags (O_RSYNC k) ''|O_RSYNC''
         (strcat_if oflags (Some (O_NONBLOCK k)) ''|O_NONBLOCK''
         (strcat_if oflags (O_NOCTTY k) ''|O_NOCTTY''
         (strcat_if oflags (O_LARGEFILE k) ''|O_LARGEFILE''
         (strcat_if oflags (Some (O_EXCL k)) ''|O_EXCL''
         (strcat_if oflags (O_DSYNC k) ''|O_DSYNC''
         (strcat_if oflags (Some (O_CREAT k)) ''|O_CREAT''
         (strcat_if oflags (O_APPEND k) ''|O_APPEND'' buf0)))))))))
       = foldl (\<lambda>b e. strcat_if oflags (snd e) (CHR ''|'' # fst e) b) buf0 (oflag_table k)"
      by (simp add: oflag_table_def)
    also have "\<dots> = buf0 @ concat (map (\<lambda>e. CHR ''|'' # fst e) (filter (shown oflags) (oflag_table k)))"
      by (rule foldl_strcat_if)
    also have "\<dots> = buf0 @ concat (map (\<lambda>n. CHR ''|'' # n) (shown_flags k oflags))"
      by (simp add: shown_flags_def comp_def)
    finally show ?thesis .
  qed
  show ?thesis
    unfolding encode_oflags_def Let_def
    by (simp add: chain join_bar_concat del: append_assoc)
qed

lemma split_bar_plain: "CHR ''|'' \<notin> set x \<Longrightarrow> split_bar x = [x]"
  by (induction x) auto

lemma split_bar_append:
  "CHR ''|'' \<notin> set x \<Longrightarrow> split_bar (x @ CHR ''|'' # rest) = x # split_bar rest"
  by (induction x) auto

lemma split_bar_join:
  "\<forall>n \<in> set (a # names). CHR ''|'' \<notin> set n \<Longrightarrow> split_bar (join_bar (a # names)) = a # names"
proof (induction names arbitrary: a)
  case Nil
  then show ?case by (simp add: split_bar_plain)
next
  case (Cons b names)
  then have "split_bar (join_bar (b # names)) = b # names" by simp
  with Cons.prems show ?case by (simp add: split_bar_append)
qed

lemma oflag_table_names:
  "e \<in> set (oflag_table k) \<Longrightarrow>
     CHR ''|'' \<notin> set (fst e) \<and> fst e \<notin> {''O_RDONLY'', ''O_RDWR'', ''O_WRONLY''}"
  by (auto simp: oflag_table_def)

lemma symbol_value_flag:
  assumes "e \<in> set (oflag_table k)" and "snd e = Some m"
  shows "symbol_value k (fst e) = Some m"
proof -
  have "distinct (map fst (oflag_table k))" by (simp add: oflag_table_def)
  moreover from assms(2) have "(fst e, Some m) = e" by (simp add: prod_eq_iff)
  with assms(1) have "(fst e, Some m) \<in> set (oflag_table k)" by simp
  ultimately have "map_of (oflag_table k) (fst e) = Some (Some m)" by (rule map_of_is_SomeI)
  moreover have "map_of (access_modes k) (fst e) = None"
    using oflag_table_names [OF assms(1)] by (simp add: access_modes_def)
  ultimately show ?thesis by (simp add: symbol_value_def)
qed

lemma symbol_value_access:
  assumes "(acc, v) \<in> set (access_modes k)"
  shows "symbol_value k acc = Some v"
proof -
  have "distinct (map fst (access_modes k))" by (simp add: access_modes_def)
  from map_of_is_SomeI [OF this assms] show ?thesis by (simp add: symbol_value_def)
qed

lemma or_symbols_shown:
  "set tbl \<subseteq> set (oflag_table k) \<Longrightarrow>
     or_symbols k (map fst (filter (shown oflags) tbl)) = Some (or_masks (filter (shown oflags) tbl))"
proof (induction tbl)
  case Nil
  show ?case by simp
next
  case (Cons e tbl)
  show ?case
  proof (cases "shown oflags e")
    case False
    with Cons show ?thesis by simp
  next
    case True
    then obtain m where m: "snd e = Some m" by (auto simp: shown_def split: option.splits)
    from Cons.prems have "e \<in> set (oflag_table k)" by simp
    from symbol_value_flag [OF this m] have "symbol_value k (fst e) = Some m" .
    moreover from m have "e = (fst e, Some m)" by (simp add: prod_eq_iff)
    then have "or_masks (e # filter (shown oflags) tbl) = m OR or_masks (filter (shown oflags) tbl)"
      by (metis or_masks.simps(3))
    ultimately show ?thesis using True Cons by simp
  qed
qed

lemma or_masks_shown:
  "\<forall>e \<in> set tbl. \<forall>m. snd e = Some m \<longrightarrow> oflags AND m \<noteq> 0 \<longrightarrow> oflags AND m = m \<Longrightarrow>
     or_masks (filter (shown oflags) tbl) = oflags AND or_masks tbl"
proof (induction tbl rule: or_masks.induct)
  case 1
  show ?case by simp
next
  case (2 n es)
  then have ih: "or_masks (filter (shown oflags) es) = oflags AND or_masks es" by simp
  have "\<not> shown oflags (n, None)" by (simp add: shown_def)
  then show ?case by (simp add: ih)
next
  case (3 n m es)
  then have ih: "or_masks (filter (shown oflags) es) = oflags AND or_masks es" by simp
  have sh: "shown oflags (n, Some m) \<longleftrightarrow> oflags AND m \<noteq> 0" by (simp add: shown_def)
  show ?case
  proof (cases "oflags AND m = 0")
    case True
    then show ?thesis by (simp add: sh ih bit.conj_disj_distrib)
  next
    case False
    with "3.prems" have "oflags AND m = m" by simp
    with False show ?thesis by (simp add: sh ih bit.conj_disj_distrib)
  qed
qed

lemma covered_value:
  assumes "covered k oflags"
  shows "(oflags AND O_ACCMODE k) OR shown_mask k oflags = oflags"
proof -
  from assms have a: "\<forall>e \<in> set (oflag_table k). \<forall>m. snd e = Some m \<longrightarrow> oflags AND m \<noteq> 0 \<longrightarrow> oflags AND m = m"
    and b: "oflags AND (O_ACCMODE k OR or_masks (oflag_table k)) = oflags"
    by (simp_all add: covered_def)
  have "shown_mask k oflags = oflags AND or_masks (oflag_table k)"
    unfolding shown_mask_def by (rule or_masks_shown [OF a])
  then have "(oflags AND O_ACCMODE k) OR shown_mask k oflags
               = oflags AND (O_ACCMODE k OR or_masks (oflag_table k))"
    by (simp add: bit.conj_disj_distrib)
  with b show ?thesis by simp
qed

lemma denotation_shown:
  assumes "(acc, v) \<in> set (access_modes k)"
  shows "denotation k (join_bar (acc # shown_flags k oflags)) = Some (v OR shown_mask k oflags)"
proof -
  have "CHR ''|'' \<notin> set acc" using assms by (auto simp: access_modes_def)
  moreover have "\<forall>n \<in> set (shown_flags k oflags). CHR ''|'' \<notin> set n"
    using oflag_table_names [of _ k] by (auto simp: shown_flags_def)
  ultimately have "split_bar (join_bar (acc # shown_flags k oflags)) = acc # shown_flags k oflags"
    by (intro split_bar_join) simp
  moreover have "or_symbols k (shown_flags k oflags) = Some (shown_mask k oflags)"
    unfolding shown_flags_def shown_mask_def by (rule or_symbols_shown) simp
  ultimately show ?thesis
    using symbol_value_access [OF assms] by (simp add: denotation_def)
qed

lemma cstr_drop_step:
  assumes "cursor < length copy" and "copy ! cursor \<noteq> NUL"
  shows "cstr (drop cursor copy) = copy ! cursor # cstr (drop (Suc cursor) copy)"
proof -
  have "drop cursor copy = copy ! cursor # drop (Suc cursor) copy"
    using assms(1) by (simp add: Cons_nth_drop_Suc)
  then show ?thesis using assms(2) by (simp add: cstr_def)
qed

lemma cstr_drop_end:
  assumes "\<not> (cursor < length copy \<and> copy ! cursor \<noteq> NUL)"
  shows "cstr (drop cursor copy) = []"
proof (cases "cursor < length copy")
  case True
  then have "drop cursor copy = copy ! cursor # drop (Suc cursor) copy"
    by (simp add: Cons_nth_drop_Suc)
  with assms True show ?thesis by (simp add: cstr_def)
next
  case False
  then show ?thesis by (simp add: cstr_def)
qed

lemma split_file_name_result:
  "(NL \<in> set (cstr (drop cursor copy)) \<longrightarrow>
      split_file_name cursor copy remote_user remote_host remote_file = Inl ENOENT)
   \<and> (NL \<notin> set (cstr (drop cursor copy)) \<longrightarrow>
      (\<exists>copy' u' h' f'.
          split_file_name cursor copy remote_user remote_host remote_file = Inr (copy', u', h', f')
          \<and> (f' = None \<longleftrightarrow> remote_file = None \<and> CHR '':'' \<notin> set (cstr (drop cursor copy)))))"
proof (induction cursor copy remote_user remote_host remote_file rule: split_file_name.induct)
  case (1 cursor copy remote_user remote_host remote_file)
  show ?case
  proof (cases "cursor < length copy \<and> copy ! cursor \<noteq> NUL")
    case False
    from cstr_drop_end [OF False] False show ?thesis
      by (subst (1 2) split_file_name.simps) auto
  next
    case True
    then have st: "cstr (drop cursor copy) = copy ! cursor # cstr (drop (Suc cursor) copy)"
      by (intro cstr_drop_step) simp_all
    have dr: "drop (Suc cursor) (copy[cursor := NUL]) = drop (Suc cursor) copy"
      by simp
    show ?thesis
    proof (cases "copy ! cursor = NL")
      case nl: True
      with True st show ?thesis by (subst (1 2) split_file_name.simps) auto
    next
      case nonl: False
      show ?thesis
      proof (cases "copy ! cursor = CHR ''@''")
        case at: True
        show ?thesis
        proof (cases "remote_user = None")
          case u: True
          from "1.IH"(1) [OF True nonl at u]
          show ?thesis using True nonl at u st dr
            by (subst (1 2) split_file_name.simps) auto
        next
          case u: False
          from "1.IH"(2) [OF True nonl at u]
          show ?thesis using True nonl at u st
            by (subst (1 2) split_file_name.simps) auto
        qed
      next
        case noat: False
        show ?thesis
        proof (cases "copy ! cursor = CHR '':''")
          case col: True
          show ?thesis
          proof (cases "remote_file = None")
            case f: True
            from "1.IH"(3) [OF True nonl noat col f]
            show ?thesis using True nonl noat col f st dr
              by (subst (1 2) split_file_name.simps) auto
          next
            case f: False
            from "1.IH"(4) [OF True nonl noat col f]
            show ?thesis using True nonl noat col f st
              by (subst (1 2) split_file_name.simps) auto
          qed
        next
          case nocol: False
          from "1.IH"(5) [OF True nonl noat nocol]
          show ?thesis using True nonl noat nocol st
            by (subst (1 2) split_file_name.simps) auto
        qed
      qed
    qed
  qed
qed

lemmas eval_defs =
  session_def read_side_def write_side_def safe_read_def full_write_def close_fd_def
  rmt_shutdown_def do_command_def get_status_string_def get_status_def
  read_reply_line.simps skip_message.simps cstr_def
  atoi_def atol_def decimal_value_def isspace_def isdigit_def digit_val_def
  COMMAND_BUFFER_SIZE_def NL_def NUL_def LONG_MAX_def LONG_MIN_def EIO_def

section \<open>The claims\<close>

text \<open>
  C1.  After a reply that begins with \<open>E\<close> or \<open>F\<close> the parser is to consume the whole
  message line that follows.  The loop under the comment "Skip the error message line"
  runs \<open>while (character == '\n')\<close>: it stops at the first byte that is not a newline.
  For the reply \<open>E13\nPermission denied\n\<close> it takes the \<open>P\<close> alone; the rest of the
  message, \<open>ermission denied\n\<close>, stays in the stream, where the next status read finds
  it.  The errno 13 is decoded and the connection stays open.
\<close>

theorem get_status_string_leaves_message:
  "fst (get_status_string (session [Data (''E13'' @ [NL] @ ''Permission denied'' @ [NL])]) 0) = None
   \<and> errno (snd (get_status_string
         (session [Data (''E13'' @ [NL] @ ''Permission denied'' @ [NL])]) 0)) = 13
   \<and> fds (snd (get_status_string
         (session [Data (''E13'' @ [NL] @ ''Permission denied'' @ [NL])]) 0)) 5
       = Some (RdEnd [Data (''ermission denied'' @ [NL])])"
  by (simp add: eval_defs)

text \<open>
  C2.  After a shutdown both table entries of the handle are to be \<open>-1\<close>, so that the
  slot is free again, also when an open fails at the creation of a pipe or at the fork.
  These two error paths of \<open>rmt_open\<close> close the descriptors and leave their numbers in
  the table.  When the first pipe gets the descriptors 3 and 4 and the second \<open>pipe\<close>
  fails with \<open>EMFILE\<close>, the call returns \<open>-1\<close>, the read side of handle 0 is \<open>-1\<close>
  (closed) and its write side is still 4 (looks open), although descriptor 4 has
  been closed, and the search for an unused slot passes over slot 0 from then on.  When
  the fork fails (errno 11), both sides keep the numbers 5 and 4 of closed descriptors
  and slot 0 is lost in the same way.
\<close>

theorem rmt_open_failure_keeps_descriptors:
  "\<not> isl (rmt_open linux_oflags ((open_ok [])\<lparr>pipe_from_remote := Inl EMFILE\<rparr>) init_state
             ''host:/dev/tape'' 0 0 (Some ''/usr/bin/rsh''))
   \<and> \<not> isl (rmt_open linux_oflags ((open_ok [])\<lparr>fork_result := Inl 11\<rparr>) init_state
             ''host:/dev/tape'' 0 0 (Some ''/usr/bin/rsh''))
   \<and> fst (projr (rmt_open linux_oflags ((open_ok [])\<lparr>pipe_from_remote := Inl EMFILE\<rparr>) init_state
                 ''host:/dev/tape'' 0 0 (Some ''/usr/bin/rsh''))) = -1
   \<and> errno (snd (projr (rmt_open linux_oflags ((open_ok [])\<lparr>pipe_from_remote := Inl EMFILE\<rparr>)
                           init_state ''host:/dev/tape'' 0 0 (Some ''/usr/bin/rsh'')))) = EMFILE
   \<and> read_side (snd (projr (rmt_open linux_oflags ((open_ok [])\<lparr>pipe_from_remote := Inl EMFILE\<rparr>)
                               init_state ''host:/dev/tape'' 0 0 (Some ''/usr/bin/rsh'')))) 0 = -1
   \<and> write_side (snd (projr (rmt_open linux_oflags ((open_ok [])\<lparr>pipe_from_remote := Inl EMFILE\<rparr>)
                                init_state ''host:/dev/tape'' 0 0 (Some ''/usr/bin/rsh'')))) 0 = 4
   \<and> fds (snd (projr (rmt_open linux_oflags ((open_ok [])\<lparr>pipe_from_remote := Inl EMFILE\<rparr>)
                         init_state ''host:/dev/tape'' 0 0 (Some ''/usr/bin/rsh'')))) 4 = None
   \<and> find_unused (snd (projr (rmt_open linux_oflags ((open_ok [])\<lparr>pipe_from_remote := Inl EMFILE\<rparr>)
                                 init_state ''host:/dev/tape'' 0 0 (Some ''/usr/bin/rsh'')))) 0 = 1
   \<and> fst (projr (rmt_open linux_oflags ((open_ok [])\<lparr>fork_result := Inl 11\<rparr>) init_state
                    ''host:/dev/tape'' 0 0 (Some ''/usr/bin/rsh''))) = -1
   \<and> read_side (snd (projr (rmt_open linux_oflags ((open_ok [])\<lparr>fork_result := Inl 11\<rparr>)
                               init_state ''host:/dev/tape'' 0 0 (Some ''/usr/bin/rsh'')))) 0 = 5
   \<and> write_side (snd (projr (rmt_open linux_oflags ((open_ok [])\<lparr>fork_result := Inl 11\<rparr>)
                                init_state ''host:/dev/tape'' 0 0 (Some ''/usr/bin/rsh'')))) 0 = 4
   \<and> fds (snd (projr (rmt_open linux_oflags ((open_ok [])\<lparr>fork_result := Inl 11\<rparr>)
                         init_state ''host:/dev/tape'' 0 0 (Some ''/usr/bin/rsh'')))) 5 = None
   \<and> fds (snd (projr (rmt_open linux_oflags ((open_ok [])\<lparr>fork_result := Inl 11\<rparr>)
                         init_state ''host:/dev/tape'' 0 0 (Some ''/usr/bin/rsh'')))) 4 = None
   \<and> find_unused (snd (projr (rmt_open linux_oflags ((open_ok [])\<lparr>fork_result := Inl 11\<rparr>)
                                 init_state ''host:/dev/tape'' 0 0 (Some ''/usr/bin/rsh'')))) 0 = 1"
  by (simp add: rmt_open_def find_unused.simps split_file_name.simps init_state_def open_ok_def
      MAXUNIT_def cstr_at_def close_fd_def read_side_def write_side_def NL_def NUL_def Let_def
      EMFILE_def)

text \<open>
  C3 (as amended).  When the reply is \<open>A\<close> followed by a negative decimal, \<open>get_status\<close>
  returns \<open>-1\<close> and sets errno to \<open>EIO\<close>, and that is all: the two tables keep
  their entries and every descriptor stays open, so the connection is not shut down by
  \<open>get_status\<close>.  Only a count that is not negative is returned: the count itself when
  it is a \<open>long\<close>, with errno left alone, and the largest \<open>long\<close>, with errno
  \<open>ERANGE\<close>, for a count beyond it.  Either way the reply line, and nothing after it,
  is taken from the stream.
\<close>

theorem get_status_negative_keeps_session:
  assumes "fds s (read_side s h) = Some (RdEnd evs)"
    and "avail evs = CHR ''A'' # dec_int k @ NL # rest"
    and "Suc (length (dec_int k)) < COMMAND_BUFFER_SIZE"
  shows "fst (get_status s h) = (if 0 \<le> k then min LONG_MAX k else -1)
       \<and> errno (snd (get_status s h))
           = (if k < 0 then EIO else if LONG_MAX < k then ERANGE else errno s)
       \<and> from_remote (snd (get_status s h)) = from_remote s
       \<and> to_remote (snd (get_status s h)) = to_remote s
       \<and> (\<exists>evs'. fds (snd (get_status s h)) (read_side s h) = Some (RdEnd evs') \<and> avail evs' = rest)
       \<and> (\<forall>fd. fd \<noteq> read_side s h \<longrightarrow> fds (snd (get_status s h)) fd = fds s fd)"
proof -
  from get_status_count [OF assms] obtain evs' where
    "get_status s h = (if 0 \<le> k then min LONG_MAX k else -1,
                       s\<lparr>fds := (fds s)(read_side s h \<mapsto> RdEnd evs'),
                         errno := (if k < 0 then EIO else if LONG_MAX < k then ERANGE
                                   else errno s)\<rparr>)"
    and "avail evs' = rest" by blast
  then show ?thesis by simp
qed

text \<open>C3, an instance.  The same at the reply \<open>A-5\<close> on the open connection 0.\<close>

theorem get_status_negative_keeps_session_witness:
  "fds (session [Data (''A-5'' @ [NL])]) (read_side (session [Data (''A-5'' @ [NL])]) 0)
     = Some (RdEnd [Data (''A-5'' @ [NL])])
   \<and> avail [Data (''A-5'' @ [NL])] = CHR ''A'' # dec_int (-5) @ NL # []
   \<and> Suc (length (dec_int (-5))) < COMMAND_BUFFER_SIZE
   \<and> fst (get_status (session [Data (''A-5'' @ [NL])]) 0) = -1
   \<and> errno (snd (get_status (session [Data (''A-5'' @ [NL])]) 0)) = EIO
   \<and> from_remote (snd (get_status (session [Data (''A-5'' @ [NL])]) 0))
        = from_remote (session [Data (''A-5'' @ [NL])])
   \<and> to_remote (snd (get_status (session [Data (''A-5'' @ [NL])]) 0))
        = to_remote (session [Data (''A-5'' @ [NL])])
   \<and> fds (snd (get_status (session [Data (''A-5'' @ [NL])]) 0)) 4 = Some (WrEnd [] None)"
proof -
  let ?s = "session [Data (''A-5'' @ [NL])]"
  have a: "fds ?s (read_side ?s 0) = Some (RdEnd [Data (''A-5'' @ [NL])])"
    by (simp add: session_def read_side_def)
  have b: "avail [Data (''A-5'' @ [NL])] = CHR ''A'' # dec_int (-5) @ NL # []"
    by (simp add: dec_int_def dec_nat.simps digit_char_def)
  have c: "Suc (length (dec_int (-5))) < COMMAND_BUFFER_SIZE"
    by (simp add: dec_int_def dec_nat.simps COMMAND_BUFFER_SIZE_def)
  note t = get_status_negative_keeps_session [OF a b c]
  have "(4::int) \<noteq> read_side ?s 0"
    by (simp add: session_def read_side_def)
  with t have "fds (snd (get_status ?s 0)) 4 = fds ?s 4" by blast
  then have d: "fds (snd (get_status ?s 0)) 4 = Some (WrEnd [] None)"
    by (simp add: session_def)
  from t have "fst (get_status ?s 0) = -1" "errno (snd (get_status ?s 0)) = EIO"
    "from_remote (snd (get_status ?s 0)) = from_remote ?s"
    "to_remote (snd (get_status ?s 0)) = to_remote ?s"
    by simp_all
  with a b c d show ?thesis by blast
qed

text \<open>
  C3 as stated fails: after the reply \<open>A-5\<close> the read side is still descriptor 5 and
  the write side still descriptor 4, both open.
\<close>

theorem get_status_negative_no_shutdown:
  "fst (get_status (session [Data (''A-5'' @ [NL])]) 0) = -1
   \<and> errno (snd (get_status (session [Data (''A-5'' @ [NL])]) 0)) = EIO
   \<and> \<not> (read_side (snd (get_status (session [Data (''A-5'' @ [NL])]) 0)) 0 = -1
         \<and> write_side (snd (get_status (session [Data (''A-5'' @ [NL])]) 0)) 0 = -1)
   \<and> fds (snd (get_status (session [Data (''A-5'' @ [NL])]) 0)) 5 = Some (RdEnd [])
   \<and> fds (snd (get_status (session [Data (''A-5'' @ [NL])]) 0)) 4 = Some (WrEnd [] None)"
  by (simp add: eval_defs)

text \<open>
  C4 (as amended).  With an unused slot in the table, \<open>rmt_open\<close> returns \<open>-1\<close> with
  errno \<open>ENOENT\<close> for a file name that contains a newline, and the state is otherwise
  as before: no pipe has been created and no child forked.  A missing \<open>:\<close> is not
  checked.  For a file name with neither a newline nor a \<open>:\<close> the loop leaves
  \<open>remote_file\<close> null, which violates \<open>assume (remote_file)\<close>: the call does not
  return \<open>-1\<close> with \<open>ENOENT\<close>, its behaviour is undefined.  (The file name is taken
  up to its terminating NUL.)
\<close>

theorem rmt_open_file_name_checks:
  assumes "find_unused s 0 \<noteq> MAXUNIT"
  shows "(NL \<in> set (cstr file_name) \<longrightarrow>
            rmt_open k env s file_name oflags bias remote_shell = Inr (-1, s\<lparr>errno := ENOENT\<rparr>))
       \<and> (NL \<notin> set (cstr file_name) \<and> CHR '':'' \<notin> set (cstr file_name) \<longrightarrow>
            rmt_open k env s file_name oflags bias remote_shell = Inl Assumption_violated)"
proof (intro conjI impI)
  assume "NL \<in> set (cstr file_name)"
  with split_file_name_result [of 0 file_name None 0 None]
  have "split_file_name 0 file_name None 0 None = Inl ENOENT" by simp
  with assms show "rmt_open k env s file_name oflags bias remote_shell
                     = Inr (-1, s\<lparr>errno := ENOENT\<rparr>)"
    by (simp add: rmt_open_def Let_def)
next
  assume "NL \<notin> set (cstr file_name) \<and> CHR '':'' \<notin> set (cstr file_name)"
  with split_file_name_result [of 0 file_name None 0 None]
  obtain copy' u' h' where "split_file_name 0 file_name None 0 None = Inr (copy', u', h', None)"
    by auto
  with assms show "rmt_open k env s file_name oflags bias remote_shell = Inl Assumption_violated"
    by (simp add: rmt_open_def Let_def)
qed

text \<open>
  C4, an instance.  The same in the initial state: the name \<open>host:/dev\n/tape\<close> is refused with
  \<open>ENOENT\<close>, the name \<open>tape\<close> violates the assumption.
\<close>

theorem rmt_open_file_name_checks_witness:
  "find_unused init_state 0 \<noteq> MAXUNIT
   \<and> NL \<in> set (cstr (''host:/dev'' @ [NL] @ ''/tape''))
   \<and> rmt_open linux_oflags (open_ok []) init_state (''host:/dev'' @ [NL] @ ''/tape'') 0 0
        (Some ''/usr/bin/rsh'') = Inr (-1, init_state\<lparr>errno := ENOENT\<rparr>)
   \<and> NL \<notin> set (cstr ''tape'') \<and> CHR '':'' \<notin> set (cstr ''tape'')
   \<and> rmt_open linux_oflags (open_ok []) init_state ''tape'' 0 0 (Some ''/usr/bin/rsh'')
        = Inl Assumption_violated"
proof -
  have f: "find_unused init_state 0 \<noteq> MAXUNIT"
    by (simp add: find_unused.simps init_state_def MAXUNIT_def read_side_def write_side_def)
  have a: "NL \<in> set (cstr (''host:/dev'' @ [NL] @ ''/tape''))"
    by (simp add: cstr_def NL_def NUL_def)
  have b: "NL \<notin> set (cstr ''tape'') \<and> CHR '':'' \<notin> set (cstr ''tape'')"
    by (simp add: cstr_def NL_def NUL_def)
  note t = rmt_open_file_name_checks [OF f, of _ linux_oflags "open_ok []" 0 0 "Some ''/usr/bin/rsh''"]
  from t [of "''host:/dev'' @ [NL] @ ''/tape''"] a
  have r1: "rmt_open linux_oflags (open_ok []) init_state (''host:/dev'' @ [NL] @ ''/tape'') 0 0
        (Some ''/usr/bin/rsh'') = Inr (-1, init_state\<lparr>errno := ENOENT\<rparr>)" by blast
  from t [of "''tape''"] b
  have r2: "rmt_open linux_oflags (open_ok []) init_state ''tape'' 0 0 (Some ''/usr/bin/rsh'')
        = Inl Assumption_violated" by blast
  from f a r1 b r2 show ?thesis by blast
qed

text \<open>
  C4 as stated fails: for the name \<open>tape\<close>, which has no \<open>:\<close>, \<open>rmt_open\<close> does not
  return \<open>-1\<close> with errno \<open>ENOENT\<close>.
\<close>

theorem rmt_open_no_colon_not_enoent:
  "rmt_open linux_oflags (open_ok []) init_state ''tape'' 0 0 (Some ''/usr/bin/rsh'')
     = Inl Assumption_violated
   \<and> rmt_open linux_oflags (open_ok []) init_state ''tape'' 0 0 (Some ''/usr/bin/rsh'')
     \<noteq> Inr (-1, init_state\<lparr>errno := ENOENT\<rparr>)"
  by (simp add: rmt_open_def find_unused.simps split_file_name.simps init_state_def
      MAXUNIT_def read_side_def write_side_def NL_def NUL_def Let_def)

text \<open>
  C5.  On an open connection that takes the command, for a request of \<open>N\<close> bytes:
  after the reply \<open>A<k>\<close> with \<open>0 \<le> k \<le> N\<close> and \<open>k\<close> bytes of payload, however the
  bytes are cut into reads, \<open>rmt_read\<close> returns \<open>k\<close> with exactly these bytes at the
  start of the buffer, takes nothing more from the stream and leaves the connection
  open (so for \<open>k = 0\<close>: it returns 0 and the connection is alive); a status outside
  \<open>[0, N]\<close>, or an end of file or read error before \<open>k\<close> bytes of payload
  have come, makes it return \<open>-1\<close> with errno \<open>EIO\<close>, both table entries reset and
  both descriptors of the connection closed.
\<close>

theorem rmt_read_status_and_payload:
  assumes "connected s h evs" and "N \<le> LONG_MAX"
  shows "(\<forall>k payload rest.
            0 \<le> k \<and> k \<le> N \<and> int (length payload) = k
            \<and> avail evs = CHR ''A'' # dec_int k @ NL # payload @ rest \<longrightarrow>
            (\<exists>s'. rmt_read s h buffer N = (k, payload @ drop (length payload) buffer, s')
                \<and> from_remote s' = from_remote s \<and> to_remote s' = to_remote s
                \<and> errno s' = errno s
                \<and> (\<exists>evs'. fds s' (read_side s h) = Some (RdEnd evs') \<and> avail evs' = rest)
                \<and> fds s' (write_side s h) \<noteq> None))
       \<and> (\<forall>st s2.
            get_status (snd (do_command s h (''R'' @ dec_int N @ [NL]))) h = (st, s2)
            \<and> \<not> (0 \<le> st \<and> st \<le> N) \<longrightarrow>
            (\<exists>s'. rmt_read s h buffer N = (-1, buffer, s')
                \<and> errno s' = EIO \<and> read_side s' h = -1 \<and> write_side s' h = -1
                \<and> fds s' (read_side s h) = None \<and> fds s' (write_side s h) = None))
       \<and> (\<forall>k bytes.
            0 \<le> k \<and> k \<le> N \<and> int (length bytes) < k
            \<and> avail evs = CHR ''A'' # dec_int k @ NL # bytes \<longrightarrow>
            (\<exists>b s'. rmt_read s h buffer N = (-1, b, s')
                \<and> errno s' = EIO \<and> read_side s' h = -1 \<and> write_side s' h = -1
                \<and> fds s' (read_side s h) = None \<and> fds s' (write_side s h) = None))"
  using rmt_read_payload [OF assms(1) _ _ assms(2), of _ _ _ buffer]
    rmt_read_out_of_range [OF assms(1), of N _ _ buffer]
    rmt_read_short_payload [OF assms(1) _ _ assms(2), of _ _ buffer]
  by blast

text \<open>
  C5, an instance.  Three runs of a read of 100 bytes into the buffer \<open>xxxxx\<close> on the open connection 0.
  The reply \<open>A3\<close> with the payload \<open>abc\<close>, arriving in two pieces: the result is 3
  and the buffer \<open>abcxx\<close>.  The reply \<open>A101\<close>: the status is out of range.  The reply
  \<open>A3\<close> with two bytes before the end of file: a short payload.  In the last two runs
  the descriptors 5 and 4 end closed.
\<close>

theorem rmt_read_status_and_payload_witness:
  "connected (session [Data (''A3'' @ [NL] @ ''ab''), Data ''c'']) 0
     [Data (''A3'' @ [NL] @ ''ab''), Data ''c'']
   \<and> (100::int) \<le> LONG_MAX
   \<and> avail [Data (''A3'' @ [NL] @ ''ab''), Data ''c''] = CHR ''A'' # dec_int 3 @ NL # ''abc'' @ []
   \<and> fst (rmt_read (session [Data (''A3'' @ [NL] @ ''ab''), Data ''c'']) 0 ''xxxxx'' 100) = 3
   \<and> fst (snd (rmt_read (session [Data (''A3'' @ [NL] @ ''ab''), Data ''c'']) 0 ''xxxxx'' 100))
       = ''abcxx''
   \<and> from_remote (snd (snd (rmt_read (session [Data (''A3'' @ [NL] @ ''ab''), Data ''c''])
                                0 ''xxxxx'' 100)))
       = from_remote (session [Data (''A3'' @ [NL] @ ''ab''), Data ''c''])
   \<and> connected (session [Data (''A101'' @ [NL])]) 0 [Data (''A101'' @ [NL])]
   \<and> fst (get_status (snd (do_command (session [Data (''A101'' @ [NL])]) 0
                               (''R'' @ dec_int 100 @ [NL]))) 0) = 101
   \<and> fst (rmt_read (session [Data (''A101'' @ [NL])]) 0 ''xxxxx'' 100) = -1
   \<and> read_side (snd (snd (rmt_read (session [Data (''A101'' @ [NL])]) 0 ''xxxxx'' 100))) 0 = -1
   \<and> fds (snd (snd (rmt_read (session [Data (''A101'' @ [NL])]) 0 ''xxxxx'' 100))) 5 = None
   \<and> fds (snd (snd (rmt_read (session [Data (''A101'' @ [NL])]) 0 ''xxxxx'' 100))) 4 = None
   \<and> connected (session [Data (''A3'' @ [NL] @ ''ab'')]) 0 [Data (''A3'' @ [NL] @ ''ab'')]
   \<and> avail [Data (''A3'' @ [NL] @ ''ab'')] = CHR ''A'' # dec_int 3 @ NL # ''ab''
   \<and> fst (rmt_read (session [Data (''A3'' @ [NL] @ ''ab'')]) 0 ''xxxxx'' 100) = -1
   \<and> errno (snd (snd (rmt_read (session [Data (''A3'' @ [NL] @ ''ab'')]) 0 ''xxxxx'' 100))) = EIO
   \<and> write_side (snd (snd (rmt_read (session [Data (''A3'' @ [NL] @ ''ab'')]) 0 ''xxxxx'' 100))) 0
       = -1
   \<and> fds (snd (snd (rmt_read (session [Data (''A3'' @ [NL] @ ''ab'')]) 0 ''xxxxx'' 100))) 5 = None
   \<and> fds (snd (snd (rmt_read (session [Data (''A3'' @ [NL] @ ''ab'')]) 0 ''xxxxx'' 100))) 4 = None"
proof -
  let ?e1 = "[Data (''A3'' @ [NL] @ ''ab''), Data ''c'']"
  let ?e2 = "[Data (''A101'' @ [NL])]"
  let ?e3 = "[Data (''A3'' @ [NL] @ ''ab'')]"
  have n: "(100::int) \<le> LONG_MAX" by (simp add: LONG_MAX_def)
  have sd: "read_side (session evs) 0 = 5" "write_side (session evs) 0 = 4" for evs
    by (simp_all add: session_def read_side_def write_side_def)
  have d3: "dec_int 3 = ''3''" by (simp add: dec_int_def dec_nat.simps digit_char_def)
  have c1: "connected (session ?e1) 0 ?e1"
    by (simp add: connected_def session_def read_side_def write_side_def)
  have a1: "avail ?e1 = CHR ''A'' # dec_int 3 @ NL # ''abc'' @ []" by (simp add: d3)
  from rmt_read_status_and_payload [OF c1 n, of "''xxxxx''"] a1
  have "\<exists>s'. rmt_read (session ?e1) 0 ''xxxxx'' 100 = (3, ''abc'' @ drop (length ''abc'') ''xxxxx'', s')
             \<and> from_remote s' = from_remote (session ?e1)"
    by (elim conjE allE [of _ 3] allE [of _ "''abc''"] allE [of _ "[]"]) auto
  then have r1: "fst (rmt_read (session ?e1) 0 ''xxxxx'' 100) = 3"
    "fst (snd (rmt_read (session ?e1) 0 ''xxxxx'' 100)) = ''abcxx''"
    "from_remote (snd (snd (rmt_read (session ?e1) 0 ''xxxxx'' 100))) = from_remote (session ?e1)"
    by auto
  have c2: "connected (session ?e2) 0 ?e2"
    by (simp add: connected_def session_def read_side_def write_side_def)
  have g2: "fst (get_status (snd (do_command (session ?e2) 0 (''R'' @ dec_int 100 @ [NL]))) 0) = 101"
    by (simp add: eval_defs)
  then obtain s2 where
    "get_status (snd (do_command (session ?e2) 0 (''R'' @ dec_int 100 @ [NL]))) 0 = (101, s2)"
    by (cases "get_status (snd (do_command (session ?e2) 0 (''R'' @ dec_int 100 @ [NL]))) 0") auto
  with rmt_read_status_and_payload [OF c2 n, of "''xxxxx''"]
  have "\<exists>s'. rmt_read (session ?e2) 0 ''xxxxx'' 100 = (-1, ''xxxxx'', s')
             \<and> errno s' = EIO \<and> read_side s' 0 = -1 \<and> write_side s' 0 = -1
             \<and> fds s' (read_side (session ?e2) 0) = None
             \<and> fds s' (write_side (session ?e2) 0) = None"
    by (elim conjE allE [of _ 101] allE [of _ s2]) auto
  then have r2: "fst (rmt_read (session ?e2) 0 ''xxxxx'' 100) = -1"
    "read_side (snd (snd (rmt_read (session ?e2) 0 ''xxxxx'' 100))) 0 = -1"
    "fds (snd (snd (rmt_read (session ?e2) 0 ''xxxxx'' 100))) 5 = None"
    "fds (snd (snd (rmt_read (session ?e2) 0 ''xxxxx'' 100))) 4 = None"
    by (auto simp: sd)
  have c3: "connected (session ?e3) 0 ?e3"
    by (simp add: connected_def session_def read_side_def write_side_def)
  have a3: "avail ?e3 = CHR ''A'' # dec_int 3 @ NL # ''ab''" by (simp add: d3)
  from rmt_read_status_and_payload [OF c3 n, of "''xxxxx''"] a3
  have "\<exists>b s'. rmt_read (session ?e3) 0 ''xxxxx'' 100 = (-1, b, s')
             \<and> errno s' = EIO \<and> read_side s' 0 = -1 \<and> write_side s' 0 = -1
             \<and> fds s' (read_side (session ?e3) 0) = None
             \<and> fds s' (write_side (session ?e3) 0) = None"
    by (elim conjE allE [of _ 3] allE [of _ "''ab''"]) auto
  then have r3: "fst (rmt_read (session ?e3) 0 ''xxxxx'' 100) = -1"
    "errno (snd (snd (rmt_read (session ?e3) 0 ''xxxxx'' 100))) = EIO"
    "write_side (snd (snd (rmt_read (session ?e3) 0 ''xxxxx'' 100))) 0 = -1"
    "fds (snd (snd (rmt_read (session ?e3) 0 ''xxxxx'' 100))) 5 = None"
    "fds (snd (snd (rmt_read (session ?e3) 0 ''xxxxx'' 100))) 4 = None"
    by (auto simp: sd)
  from n c1 a1 r1 c2 g2 r2 c3 a3 r3 show ?thesis by blast
qed

text \<open>
  C6.  On an open connection that takes the command line and the whole payload of
  \<open>len\<close> bytes, \<open>rmt_write\<close> puts \<open>W<len>\<close>, a newline and the payload on the wire.
  Then the reply \<open>A<len>\<close> makes it return \<open>len\<close>, with the connection as it was; a
  reply \<open>A<m>\<close> with \<open>0 \<le> m < len\<close> makes it return \<open>m\<close>; and a reply \<open>E<e>\<close>
  with an errno \<open>e\<close> of the range of \<open>int\<close>, followed by a message line that is not
  empty, makes it return 0 with errno \<open>e\<close>, the two tables unchanged and both
  descriptors open.
\<close>

theorem rmt_write_replies:
  assumes "connected s h evs" and "len = int (length buffer)" and "len \<le> LONG_MAX"
  shows "(\<forall>rest.
            avail evs = CHR ''A'' # dec_int len @ NL # rest \<longrightarrow>
            fst (rmt_write s h buffer len) = len
            \<and> from_remote (snd (rmt_write s h buffer len)) = from_remote s
            \<and> to_remote (snd (rmt_write s h buffer len)) = to_remote s
            \<and> wire (snd (rmt_write s h buffer len)) h
                = wire s h @ ''W'' @ dec_int len @ [NL] @ buffer)
       \<and> (\<forall>m rest.
            0 \<le> m \<and> m < len \<and> avail evs = CHR ''A'' # dec_int m @ NL # rest \<longrightarrow>
            fst (rmt_write s h buffer len) = m)
       \<and> (\<forall>e msg rest.
            0 < e \<and> e < 2 ^ 31 \<and> msg \<noteq> [] \<and> NL \<notin> set msg
            \<and> avail evs = CHR ''E'' # dec_int e @ NL # msg @ NL # rest \<longrightarrow>
            fst (rmt_write s h buffer len) = 0
            \<and> errno (snd (rmt_write s h buffer len)) = e
            \<and> from_remote (snd (rmt_write s h buffer len)) = from_remote s
            \<and> to_remote (snd (rmt_write s h buffer len)) = to_remote s
            \<and> fds (snd (rmt_write s h buffer len)) (read_side s h) \<noteq> None
            \<and> wire (snd (rmt_write s h buffer len)) h
                = wire s h @ ''W'' @ dec_int len @ [NL] @ buffer)"
proof -
  from assms(1) obtain sent where w: "fds s (write_side s h) = Some (WrEnd sent None)"
    and rd: "fds s (read_side s h) = Some (RdEnd evs)"
    and ne: "read_side s h \<noteq> write_side s h"
    by (rule connectedE)
  let ?s2 = "s\<lparr>fds := (fds s)(write_side s h \<mapsto>
                 WrEnd (sent @ ''W'' @ dec_int len @ [NL] @ buffer) None)\<rparr>"
  note wr = rmt_write_sent [OF w assms(2)]
  have rd2: "fds ?s2 (read_side ?s2 h) = Some (RdEnd evs)" using rd ne by simp
  have ws: "wire s h = sent" using w by (simp add: wire_def)
  have l0: "0 \<le> len" using assms(2) by simp
  have fit: "Suc (length (dec_int k)) < COMMAND_BUFFER_SIZE" if "0 \<le> k" "k \<le> len" for k
  proof -
    have "LONG_MIN \<le> k" "k \<le> LONG_MAX" using that assms(3) by (simp_all add: LONG_MIN_def)
    then show ?thesis using length_dec_int [of k] by (simp add: COMMAND_BUFFER_SIZE_def)
  qed
  have p1: "fst (rmt_write s h buffer len) = len
            \<and> from_remote (snd (rmt_write s h buffer len)) = from_remote s
            \<and> to_remote (snd (rmt_write s h buffer len)) = to_remote s
            \<and> wire (snd (rmt_write s h buffer len)) h
                = wire s h @ ''W'' @ dec_int len @ [NL] @ buffer"
    if a: "avail evs = CHR ''A'' # dec_int len @ NL # rest" for rest
  proof -
    from get_status_count [OF rd2 a fit [OF l0 order_refl]] obtain evs' where
      "get_status ?s2 h = (if 0 \<le> len then min LONG_MAX len else -1,
          ?s2\<lparr>fds := (fds ?s2)(read_side ?s2 h \<mapsto> RdEnd evs'),
               errno := (if len < 0 then EIO else if LONG_MAX < len then ERANGE
                         else errno ?s2)\<rparr>)" by blast
    then have "get_status ?s2 h = (len, ?s2\<lparr>fds := (fds ?s2)(read_side s h \<mapsto> RdEnd evs')\<rparr>)"
      using l0 assms(3) by simp
    then show ?thesis using l0 ne ws by (simp add: wr wire_def)
  qed
  have p2: "fst (rmt_write s h buffer len) = m"
    if a: "avail evs = CHR ''A'' # dec_int m @ NL # rest" and m: "0 \<le> m" "m < len" for m rest
  proof -
    have "m \<le> len" using m by simp
    from get_status_count [OF rd2 a fit [OF m(1) this]] obtain evs' where
      "get_status ?s2 h = (if 0 \<le> m then min LONG_MAX m else -1,
          ?s2\<lparr>fds := (fds ?s2)(read_side ?s2 h \<mapsto> RdEnd evs'),
               errno := (if m < 0 then EIO else if LONG_MAX < m then ERANGE
                         else errno ?s2)\<rparr>)" by blast
    then have "get_status ?s2 h = (m, ?s2\<lparr>fds := (fds ?s2)(read_side s h \<mapsto> RdEnd evs')\<rparr>)"
      using m assms(3) by simp
    then show ?thesis using m by (simp add: wr)
  qed
  have p3: "fst (rmt_write s h buffer len) = 0
            \<and> errno (snd (rmt_write s h buffer len)) = e
            \<and> from_remote (snd (rmt_write s h buffer len)) = from_remote s
            \<and> to_remote (snd (rmt_write s h buffer len)) = to_remote s
            \<and> fds (snd (rmt_write s h buffer len)) (read_side s h) \<noteq> None
            \<and> wire (snd (rmt_write s h buffer len)) h
                = wire s h @ ''W'' @ dec_int len @ [NL] @ buffer"
    if a: "avail evs = CHR ''E'' # dec_int e @ NL # msg @ NL # rest"
      and e: "0 < e" "e < 2 ^ 31" and msg: "msg \<noteq> []" "NL \<notin> set msg" for e msg rest
  proof -
    from msg obtain c cs where m: "msg = c # cs" and c: "c \<noteq> NL" by (cases msg) auto
    from a m have a': "avail evs = CHR ''E'' # dec_int e @ NL # c # (cs @ NL # rest)" by simp
    from get_status_E_errno [OF rd2 a' c e] obtain evs' where
      "get_status ?s2 h
         = (-1, ?s2\<lparr>fds := (fds ?s2)(read_side ?s2 h \<mapsto> RdEnd evs'), errno := e\<rparr>)" by blast
    then show ?thesis using ne ws by (simp add: wr wire_def)
  qed
  from p1 p2 p3 show ?thesis by blast
qed

text \<open>
  C6, an instance.  A write of the 10 bytes \<open>0123456789\<close> on the open connection 0, with the replies
  \<open>A10\<close>, \<open>A4\<close> and \<open>E13\nPermission denied\n\<close>: the results are 10, 4 and 0, in the
  last case with errno 13, the connection open and \<open>W10\n0123456789\<close> on the wire.
\<close>

theorem rmt_write_replies_witness:
  "connected (session [Data (''A10'' @ [NL])]) 0 [Data (''A10'' @ [NL])]
   \<and> (10::int) = int (length ''0123456789'') \<and> (10::int) \<le> LONG_MAX
   \<and> avail [Data (''A10'' @ [NL])] = CHR ''A'' # dec_int 10 @ NL # []
   \<and> fst (rmt_write (session [Data (''A10'' @ [NL])]) 0 ''0123456789'' 10) = 10
   \<and> connected (session [Data (''A4'' @ [NL])]) 0 [Data (''A4'' @ [NL])]
   \<and> avail [Data (''A4'' @ [NL])] = CHR ''A'' # dec_int 4 @ NL # []
   \<and> fst (rmt_write (session [Data (''A4'' @ [NL])]) 0 ''0123456789'' 10) = 4
   \<and> connected (session [Data (''E13'' @ [NL] @ ''Permission denied'' @ [NL])]) 0
        [Data (''E13'' @ [NL] @ ''Permission denied'' @ [NL])]
   \<and> avail [Data (''E13'' @ [NL] @ ''Permission denied'' @ [NL])]
        = CHR ''E'' # dec_int 13 @ NL # ''Permission denied'' @ NL # []
   \<and> fst (rmt_write (session [Data (''E13'' @ [NL] @ ''Permission denied'' @ [NL])])
             0 ''0123456789'' 10) = 0
   \<and> errno (snd (rmt_write (session [Data (''E13'' @ [NL] @ ''Permission denied'' @ [NL])])
                    0 ''0123456789'' 10)) = 13
   \<and> from_remote (snd (rmt_write (session [Data (''E13'' @ [NL] @ ''Permission denied'' @ [NL])])
                          0 ''0123456789'' 10))
        = [(5, 6), (-1, -1), (-1, -1), (-1, -1)]
   \<and> to_remote (snd (rmt_write (session [Data (''E13'' @ [NL] @ ''Permission denied'' @ [NL])])
                        0 ''0123456789'' 10))
        = [(3, 4), (-1, -1), (-1, -1), (-1, -1)]
   \<and> wire (snd (rmt_write (session [Data (''E13'' @ [NL] @ ''Permission denied'' @ [NL])])
                   0 ''0123456789'' 10)) 0
        = ''W10'' @ [NL] @ ''0123456789''"
proof -
  let ?e1 = "[Data (''A10'' @ [NL])]"
  let ?e2 = "[Data (''A4'' @ [NL])]"
  let ?e3 = "[Data (''E13'' @ [NL] @ ''Permission denied'' @ [NL])]"
  have l: "(10::int) = int (length ''0123456789'')" by simp
  have n: "(10::int) \<le> LONG_MAX" by (simp add: LONG_MAX_def)
  have d10: "dec_int 10 = ''10''" by (simp add: dec_int_def dec_nat.simps digit_char_def)
  have d4: "dec_int 4 = ''4''" by (simp add: dec_int_def dec_nat.simps digit_char_def)
  have d13: "dec_int 13 = ''13''" by (simp add: dec_int_def dec_nat.simps digit_char_def)
  have c1: "connected (session ?e1) 0 ?e1"
    by (simp add: connected_def session_def read_side_def write_side_def)
  have a1: "avail ?e1 = CHR ''A'' # dec_int 10 @ NL # []" by (simp add: d10)
  from rmt_write_replies [OF c1 l n] a1
  have r1: "fst (rmt_write (session ?e1) 0 ''0123456789'' 10) = 10" by blast
  have c2: "connected (session ?e2) 0 ?e2"
    by (simp add: connected_def session_def read_side_def write_side_def)
  have a2: "avail ?e2 = CHR ''A'' # dec_int 4 @ NL # []" by (simp add: d4)
  have "(0::int) \<le> 4 \<and> (4::int) < 10 \<and> avail ?e2 = CHR ''A'' # dec_int 4 @ NL # []"
    using a2 by simp
  with rmt_write_replies [OF c2 l n]
  have r2: "fst (rmt_write (session ?e2) 0 ''0123456789'' 10) = 4" by blast
  have c3: "connected (session ?e3) 0 ?e3"
    by (simp add: connected_def session_def read_side_def write_side_def)
  have a3: "avail ?e3 = CHR ''E'' # dec_int 13 @ NL # ''Permission denied'' @ NL # []"
    by (simp add: d13)
  have "(0::int) < 13 \<and> (13::int) < 2 ^ 31 \<and> ''Permission denied'' \<noteq> []
        \<and> NL \<notin> set ''Permission denied''
        \<and> avail ?e3 = CHR ''E'' # dec_int 13 @ NL # ''Permission denied'' @ NL # []"
    using a3 by (simp add: NL_def)
  with rmt_write_replies [OF c3 l n]
  have "fst (rmt_write (session ?e3) 0 ''0123456789'' 10) = 0
        \<and> errno (snd (rmt_write (session ?e3) 0 ''0123456789'' 10)) = 13
        \<and> from_remote (snd (rmt_write (session ?e3) 0 ''0123456789'' 10)) = from_remote (session ?e3)
        \<and> to_remote (snd (rmt_write (session ?e3) 0 ''0123456789'' 10)) = to_remote (session ?e3)
        \<and> fds (snd (rmt_write (session ?e3) 0 ''0123456789'' 10)) (read_side (session ?e3) 0) \<noteq> None
        \<and> wire (snd (rmt_write (session ?e3) 0 ''0123456789'' 10)) 0
            = wire (session ?e3) 0 @ ''W'' @ dec_int 10 @ [NL] @ ''0123456789''"
    by blast
  moreover have "from_remote (session ?e3) = [(5, 6), (-1, -1), (-1, -1), (-1, -1)]"
    "to_remote (session ?e3) = [(3, 4), (-1, -1), (-1, -1), (-1, -1)]"
    "wire (session ?e3) 0 = []"
    by (simp_all add: session_def wire_def write_side_def)
  ultimately have r3: "fst (rmt_write (session ?e3) 0 ''0123456789'' 10) = 0"
    "errno (snd (rmt_write (session ?e3) 0 ''0123456789'' 10)) = 13"
    "from_remote (snd (rmt_write (session ?e3) 0 ''0123456789'' 10)) = [(5, 6), (-1, -1), (-1, -1), (-1, -1)]"
    "to_remote (snd (rmt_write (session ?e3) 0 ''0123456789'' 10)) = [(3, 4), (-1, -1), (-1, -1), (-1, -1)]"
    "wire (snd (rmt_write (session ?e3) 0 ''0123456789'' 10)) 0 = ''W10'' @ [NL] @ ''0123456789''"
    by (simp_all add: d10)
  from l n c1 a1 r1 c2 a2 r2 c3 a3 r3 show ?thesis by blast
qed

text \<open>
  C7 (as amended).  For the get-status ioctl on an open connection, with a caller's
  buffer of the size of the status structure (an even number of bytes, less than the
  largest \<open>long\<close>): when the status read fails, that is, \<open>get_status\<close> returns \<open>-1\<close>,
  \<open>rmt_ioctl\<close> returns \<open>-1\<close> at once, in the state in which \<open>get_status\<close> left it, so
  without a shutdown of its own; this is what happens after a negative count, where
  errno is \<open>EIO\<close>, the tables keep their entries and both descriptors stay open.  Any
  other status that differs from the size of the structure, and so every count that is
  not negative and differs from the size, shuts the connection down with \<open>EIO\<close>: both
  table entries are \<open>-1\<close> and both descriptors are closed.  After the count that equals
  the size, exactly that many bytes are read into the buffer, and then every adjacent
  pair of bytes of the structure is swapped if the check field, read from the bytes
  received, exceeds 255, and the buffer holds the bytes as received if it does not.
  The command on the wire is \<open>S\<close> without a newline.
\<close>

theorem rmt_ioctl_get_status:
  assumes "connected s h evs"
    and "length buf = mtget_size lay" and "even (mtget_size lay)"
    and "int (mtget_size lay) < LONG_MAX"
  shows "(\<forall>s2. get_status (snd (do_command s h ''S'')) h = (-1, s2) \<longrightarrow>
            rmt_ioctl lay s h (MTIOCGET buf) = (-1, MTIOCGET buf, s2))
       \<and> (\<forall>k rest.
            k < 0 \<and> Suc (length (dec_int k)) < COMMAND_BUFFER_SIZE
            \<and> avail evs = CHR ''A'' # dec_int k @ NL # rest \<longrightarrow>
            (\<exists>s'. rmt_ioctl lay s h (MTIOCGET buf) = (-1, MTIOCGET buf, s')
                \<and> errno s' = EIO \<and> from_remote s' = from_remote s \<and> to_remote s' = to_remote s
                \<and> fds s' (read_side s h) \<noteq> None \<and> fds s' (write_side s h) \<noteq> None))
       \<and> (\<forall>st s2.
            get_status (snd (do_command s h ''S'')) h = (st, s2)
            \<and> st \<noteq> -1 \<and> st \<noteq> int (mtget_size lay) \<longrightarrow>
            (\<exists>s'. rmt_ioctl lay s h (MTIOCGET buf) = (-1, MTIOCGET buf, s')
                \<and> errno s' = EIO \<and> read_side s' h = -1 \<and> write_side s' h = -1
                \<and> fds s' (read_side s h) = None \<and> fds s' (write_side s h) = None))
       \<and> (\<forall>k rest.
            0 \<le> k \<and> k \<noteq> int (mtget_size lay)
            \<and> Suc (length (dec_int k)) < COMMAND_BUFFER_SIZE
            \<and> avail evs = CHR ''A'' # dec_int k @ NL # rest \<longrightarrow>
            (\<exists>s'. rmt_ioctl lay s h (MTIOCGET buf) = (-1, MTIOCGET buf, s')
                \<and> errno s' = EIO \<and> read_side s' h = -1 \<and> write_side s' h = -1
                \<and> fds s' (read_side s h) = None \<and> fds s' (write_side s h) = None))
       \<and> (\<forall>bytes rest.
            length bytes = mtget_size lay
            \<and> avail evs = CHR ''A'' # dec_int (int (mtget_size lay)) @ NL # bytes @ rest \<longrightarrow>
            (\<exists>buf' s'. rmt_ioctl lay s h (MTIOCGET buf) = (0, MTIOCGET buf', s')
                \<and> length buf' = length bytes
                \<and> (check_field lay bytes < 256 \<longrightarrow> buf' = bytes)
                \<and> (255 < check_field lay bytes \<longrightarrow>
                      (\<forall>i < length bytes. buf' ! i = bytes ! (if even i then i + 1 else i - 1)))
                \<and> from_remote s' = from_remote s \<and> to_remote s' = to_remote s
                \<and> (\<exists>evs'. fds s' (read_side s h) = Some (RdEnd evs') \<and> avail evs' = rest)
                \<and> wire s' h = wire s h @ ''S''))"
proof (intro conjI allI impI)
  fix s2
  assume "get_status (snd (do_command s h ''S'')) h = (-1, s2)"
  then show "rmt_ioctl lay s h (MTIOCGET buf) = (-1, MTIOCGET buf, s2)"
    by (rule rmt_ioctl_get_failed [OF assms(1)])
next
  fix k rest
  assume "k < 0 \<and> Suc (length (dec_int k)) < COMMAND_BUFFER_SIZE
            \<and> avail evs = CHR ''A'' # dec_int k @ NL # rest"
  then show "\<exists>s'. rmt_ioctl lay s h (MTIOCGET buf) = (-1, MTIOCGET buf, s')
                \<and> errno s' = EIO \<and> from_remote s' = from_remote s \<and> to_remote s' = to_remote s
                \<and> fds s' (read_side s h) \<noteq> None \<and> fds s' (write_side s h) \<noteq> None"
    by (intro rmt_ioctl_get_negative [OF assms(1)]) simp_all
next
  fix st s2
  assume "get_status (snd (do_command s h ''S'')) h = (st, s2)
            \<and> st \<noteq> -1 \<and> st \<noteq> int (mtget_size lay)"
  then show "\<exists>s'. rmt_ioctl lay s h (MTIOCGET buf) = (-1, MTIOCGET buf, s')
                \<and> errno s' = EIO \<and> read_side s' h = -1 \<and> write_side s' h = -1
                \<and> fds s' (read_side s h) = None \<and> fds s' (write_side s h) = None"
    by (intro rmt_ioctl_get_other [OF assms(1), of st s2]) simp_all
next
  fix k rest
  assume "0 \<le> k \<and> k \<noteq> int (mtget_size lay)
            \<and> Suc (length (dec_int k)) < COMMAND_BUFFER_SIZE
            \<and> avail evs = CHR ''A'' # dec_int k @ NL # rest"
  then show "\<exists>s'. rmt_ioctl lay s h (MTIOCGET buf) = (-1, MTIOCGET buf, s')
                \<and> errno s' = EIO \<and> read_side s' h = -1 \<and> write_side s' h = -1
                \<and> fds s' (read_side s h) = None \<and> fds s' (write_side s h) = None"
    using assms(4) by (intro rmt_ioctl_get_mismatch [OF assms(1), of k lay rest]) simp_all
next
  fix bytes rest
  assume "length bytes = mtget_size lay
            \<and> avail evs = CHR ''A'' # dec_int (int (mtget_size lay)) @ NL # bytes @ rest"
  moreover have "int (mtget_size lay) \<le> LONG_MAX" using assms(4) by simp
  ultimately show "\<exists>buf' s'. rmt_ioctl lay s h (MTIOCGET buf) = (0, MTIOCGET buf', s')
                \<and> length buf' = length bytes
                \<and> (check_field lay bytes < 256 \<longrightarrow> buf' = bytes)
                \<and> (255 < check_field lay bytes \<longrightarrow>
                      (\<forall>i < length bytes. buf' ! i = bytes ! (if even i then i + 1 else i - 1)))
                \<and> from_remote s' = from_remote s \<and> to_remote s' = to_remote s
                \<and> (\<exists>evs'. fds s' (read_side s h) = Some (RdEnd evs') \<and> avail evs' = rest)
                \<and> wire s' h = wire s h @ ''S''"
    by (intro rmt_ioctl_get_bytes [OF assms(1,2,3)]) simp_all
qed

text \<open>
  C7, an instance.  The same for the structure of 4 bytes on the open connection 0.  After \<open>A-5\<close> the
  status read fails, the result is \<open>-1\<close> in the state it left, and the tables are as
  before; after \<open>A6\<close> and after \<open>A9223372036854775808\<close>, a count beyond the largest
  \<open>long\<close>, the connection is shut down and the descriptors 5 and 4 are closed; after
  \<open>A4\<close> and the bytes 0, 1, \<open>a\<close>, \<open>b\<close> the check field is 256 and the buffer
  holds 1, 0, \<open>b\<close>, \<open>a\<close>; after \<open>A4\<close> and the bytes 7, 0, \<open>a\<close>, \<open>b\<close> the check field is
  7 and the buffer holds them as they came.
\<close>

theorem rmt_ioctl_get_status_witness:
  "connected (session [Data (''A-5'' @ [NL])]) 0 [Data (''A-5'' @ [NL])]
   \<and> length ''....'' = mtget_size small_mtget \<and> even (mtget_size small_mtget)
   \<and> int (mtget_size small_mtget) < LONG_MAX
   \<and> fst (get_status (snd (do_command (session [Data (''A-5'' @ [NL])]) 0 ''S'')) 0) = -1
   \<and> snd (snd (rmt_ioctl small_mtget (session [Data (''A-5'' @ [NL])]) 0 (MTIOCGET ''....'')))
       = snd (get_status (snd (do_command (session [Data (''A-5'' @ [NL])]) 0 ''S'')) 0)
   \<and> avail [Data (''A-5'' @ [NL])] = CHR ''A'' # dec_int (-5) @ NL # []
   \<and> fst (rmt_ioctl small_mtget (session [Data (''A-5'' @ [NL])]) 0 (MTIOCGET ''....'')) = -1
   \<and> from_remote (snd (snd (rmt_ioctl small_mtget (session [Data (''A-5'' @ [NL])]) 0
                                (MTIOCGET ''....''))))
       = [(5, 6), (-1, -1), (-1, -1), (-1, -1)]
   \<and> connected (session [Data (''A6'' @ [NL])]) 0 [Data (''A6'' @ [NL])]
   \<and> fst (get_status (snd (do_command (session [Data (''A6'' @ [NL])]) 0 ''S'')) 0) = 6
   \<and> fst (rmt_ioctl small_mtget (session [Data (''A6'' @ [NL])]) 0 (MTIOCGET ''....'')) = -1
   \<and> read_side (snd (snd (rmt_ioctl small_mtget (session [Data (''A6'' @ [NL])]) 0
                              (MTIOCGET ''....'')))) 0 = -1
   \<and> fds (snd (snd (rmt_ioctl small_mtget (session [Data (''A6'' @ [NL])]) 0
                       (MTIOCGET ''....'')))) 5 = None
   \<and> fds (snd (snd (rmt_ioctl small_mtget (session [Data (''A6'' @ [NL])]) 0
                       (MTIOCGET ''....'')))) 4 = None
   \<and> connected (session [Data (''A9223372036854775808'' @ [NL])]) 0
        [Data (''A9223372036854775808'' @ [NL])]
   \<and> avail [Data (''A9223372036854775808'' @ [NL])]
       = CHR ''A'' # dec_int 9223372036854775808 @ NL # []
   \<and> fst (rmt_ioctl small_mtget (session [Data (''A9223372036854775808'' @ [NL])]) 0
             (MTIOCGET ''....'')) = -1
   \<and> write_side (snd (snd (rmt_ioctl small_mtget
                               (session [Data (''A9223372036854775808'' @ [NL])]) 0
                               (MTIOCGET ''....'')))) 0 = -1
   \<and> fds (snd (snd (rmt_ioctl small_mtget (session [Data (''A9223372036854775808'' @ [NL])]) 0
                       (MTIOCGET ''....'')))) 5 = None
   \<and> connected (session [Data (''A4'' @ [NL] @ [CHR 0x00, CHR 0x01] @ ''ab'')]) 0
        [Data (''A4'' @ [NL] @ [CHR 0x00, CHR 0x01] @ ''ab'')]
   \<and> 255 < check_field small_mtget ([CHR 0x00, CHR 0x01] @ ''ab'')
   \<and> fst (snd (rmt_ioctl small_mtget
                  (session [Data (''A4'' @ [NL] @ [CHR 0x00, CHR 0x01] @ ''ab'')]) 0
                  (MTIOCGET ''....'')))
       = MTIOCGET ([CHR 0x01, CHR 0x00] @ ''ba'')
   \<and> connected (session [Data (''A4'' @ [NL] @ [CHR 0x07, CHR 0x00] @ ''ab'')]) 0
        [Data (''A4'' @ [NL] @ [CHR 0x07, CHR 0x00] @ ''ab'')]
   \<and> check_field small_mtget ([CHR 0x07, CHR 0x00] @ ''ab'') < 256
   \<and> fst (snd (rmt_ioctl small_mtget
                  (session [Data (''A4'' @ [NL] @ [CHR 0x07, CHR 0x00] @ ''ab'')]) 0
                  (MTIOCGET ''....'')))
       = MTIOCGET ([CHR 0x07, CHR 0x00] @ ''ab'')"
proof -
  let ?e1 = "[Data (''A-5'' @ [NL])]"
  let ?e2 = "[Data (''A6'' @ [NL])]"
  let ?e5 = "[Data (''A9223372036854775808'' @ [NL])]"
  let ?b3 = "[CHR 0x00, CHR 0x01] @ ''ab''"
  let ?e3 = "[Data (''A4'' @ [NL] @ ?b3)]"
  let ?b4 = "[CHR 0x07, CHR 0x00] @ ''ab''"
  let ?e4 = "[Data (''A4'' @ [NL] @ ?b4)]"
  have con: "connected (session evs) 0 evs" for evs
    by (simp add: connected_def session_def read_side_def write_side_def)
  have fr: "from_remote (session evs) = [(5, 6), (-1, -1), (-1, -1), (-1, -1)]" for evs
    by (simp add: session_def)
  have sd: "read_side (session evs) 0 = 5" "write_side (session evs) 0 = 4" for evs
    by (simp_all add: session_def read_side_def write_side_def)
  have l: "length ''....'' = mtget_size small_mtget" "even (mtget_size small_mtget)"
    "int (mtget_size small_mtget) < LONG_MAX"
    by (simp_all add: small_mtget_def LONG_MAX_def)
  have d: "dec_int (-5) = ''-5''" "dec_int 6 = ''6''" "dec_int 4 = ''4''"
    by (simp_all add: dec_int_def dec_nat.simps digit_char_def)
  have d5: "dec_int 9223372036854775808 = ''9223372036854775808''"
    by (simp add: dec_int_def dec_nat.simps digit_char_def)
  have sz: "int (mtget_size small_mtget) = 4" by (simp add: small_mtget_def)
  note t = rmt_ioctl_get_status [OF con l]
  have g1: "fst (get_status (snd (do_command (session ?e1) 0 ''S'')) 0) = -1"
    by (simp add: eval_defs)
  then have "get_status (snd (do_command (session ?e1) 0 ''S'')) 0
               = (-1, snd (get_status (snd (do_command (session ?e1) 0 ''S'')) 0))"
    by (simp add: prod_eq_iff)
  with t [of ?e1] have "rmt_ioctl small_mtget (session ?e1) 0 (MTIOCGET ''....'')
      = (-1, MTIOCGET ''....'', snd (get_status (snd (do_command (session ?e1) 0 ''S'')) 0))"
    by blast
  then have r0: "snd (snd (rmt_ioctl small_mtget (session ?e1) 0 (MTIOCGET ''....'')))
       = snd (get_status (snd (do_command (session ?e1) 0 ''S'')) 0)"
    by simp
  have a1: "avail ?e1 = CHR ''A'' # dec_int (-5) @ NL # []" by (simp add: d)
  have "(-5::int) < 0 \<and> Suc (length (dec_int (-5))) < COMMAND_BUFFER_SIZE
        \<and> avail ?e1 = CHR ''A'' # dec_int (-5) @ NL # []"
    using a1 by (simp add: d COMMAND_BUFFER_SIZE_def)
  with t [of ?e1] have "\<exists>s'. rmt_ioctl small_mtget (session ?e1) 0 (MTIOCGET ''....'')
                            = (-1, MTIOCGET ''....'', s')
                       \<and> from_remote s' = from_remote (session ?e1)"
    by blast
  then have r1: "fst (rmt_ioctl small_mtget (session ?e1) 0 (MTIOCGET ''....'')) = -1"
    "from_remote (snd (snd (rmt_ioctl small_mtget (session ?e1) 0 (MTIOCGET ''....''))))
       = [(5, 6), (-1, -1), (-1, -1), (-1, -1)]"
    by (auto simp: fr)
  have g2: "fst (get_status (snd (do_command (session ?e2) 0 ''S'')) 0) = 6"
    by (simp add: eval_defs)
  then have "get_status (snd (do_command (session ?e2) 0 ''S'')) 0
               = (6, snd (get_status (snd (do_command (session ?e2) 0 ''S'')) 0))
             \<and> (6::int) \<noteq> -1 \<and> (6::int) \<noteq> int (mtget_size small_mtget)"
    by (simp add: prod_eq_iff sz)
  with t [of ?e2] have "\<exists>s'. rmt_ioctl small_mtget (session ?e2) 0 (MTIOCGET ''....'')
                            = (-1, MTIOCGET ''....'', s') \<and> read_side s' 0 = -1
                       \<and> fds s' (read_side (session ?e2) 0) = None
                       \<and> fds s' (write_side (session ?e2) 0) = None"
    by blast
  then have r2: "fst (rmt_ioctl small_mtget (session ?e2) 0 (MTIOCGET ''....'')) = -1"
    "read_side (snd (snd (rmt_ioctl small_mtget (session ?e2) 0 (MTIOCGET ''....'')))) 0 = -1"
    "fds (snd (snd (rmt_ioctl small_mtget (session ?e2) 0 (MTIOCGET ''....'')))) 5 = None"
    "fds (snd (snd (rmt_ioctl small_mtget (session ?e2) 0 (MTIOCGET ''....'')))) 4 = None"
    by (auto simp: sd)
  have a5: "avail ?e5 = CHR ''A'' # dec_int 9223372036854775808 @ NL # []"
    by (simp add: d5)
  have "(0::int) \<le> 9223372036854775808
        \<and> (9223372036854775808::int) \<noteq> int (mtget_size small_mtget)
        \<and> Suc (length (dec_int 9223372036854775808)) < COMMAND_BUFFER_SIZE
        \<and> avail ?e5 = CHR ''A'' # dec_int 9223372036854775808 @ NL # []"
    using a5 by (simp add: sz d5 COMMAND_BUFFER_SIZE_def)
  with t [of ?e5] have "\<exists>s'. rmt_ioctl small_mtget (session ?e5) 0 (MTIOCGET ''....'')
                            = (-1, MTIOCGET ''....'', s') \<and> write_side s' 0 = -1
                       \<and> fds s' (read_side (session ?e5) 0) = None"
    by blast
  then have r5: "fst (rmt_ioctl small_mtget (session ?e5) 0 (MTIOCGET ''....'')) = -1"
    "write_side (snd (snd (rmt_ioctl small_mtget (session ?e5) 0 (MTIOCGET ''....'')))) 0 = -1"
    "fds (snd (snd (rmt_ioctl small_mtget (session ?e5) 0 (MTIOCGET ''....'')))) 5 = None"
    by (auto simp: sd)
  have c3: "255 < check_field small_mtget ?b3"
    by (simp add: small_mtget_def le_value_def)
  have "length ?b3 = mtget_size small_mtget
        \<and> avail ?e3 = CHR ''A'' # dec_int (int (mtget_size small_mtget)) @ NL # ?b3 @ []"
    by (simp add: sz d) (simp add: small_mtget_def)
  with t [of ?e3] c3 have "\<exists>buf' s'. rmt_ioctl small_mtget (session ?e3) 0 (MTIOCGET ''....'')
                            = (0, MTIOCGET buf', s') \<and> length buf' = length ?b3
                       \<and> (\<forall>i < length ?b3. buf' ! i = ?b3 ! (if even i then i + 1 else i - 1))"
    by blast
  then obtain buf' s' where e3: "rmt_ioctl small_mtget (session ?e3) 0 (MTIOCGET ''....'')
                            = (0, MTIOCGET buf', s')" and l3: "length buf' = length ?b3"
    and n3: "\<forall>i < length ?b3. buf' ! i = ?b3 ! (if even i then i + 1 else i - 1)" by blast
  from l3 have "length buf' = Suc (Suc (Suc (Suc 0)))" by simp
  then obtain a b c d where b': "buf' = [a, b, c, d]"
    by (auto simp: length_Suc_conv)
  from n3 [rule_format, of 0] n3 [rule_format, of 1] n3 [rule_format, of 2] n3 [rule_format, of 3]
  have "buf' ! 0 = CHR 0x01" "buf' ! 1 = CHR 0x00" "buf' ! 2 = CHR ''b''" "buf' ! 3 = CHR ''a''"
    by simp_all
  with b' have "buf' = [CHR 0x01, CHR 0x00] @ ''ba''"
    by simp
  with e3 have r3: "fst (snd (rmt_ioctl small_mtget (session ?e3) 0 (MTIOCGET ''....'')))
       = MTIOCGET ([CHR 0x01, CHR 0x00] @ ''ba'')" by simp
  have c4: "check_field small_mtget ?b4 < 256"
    by (simp add: small_mtget_def le_value_def)
  have "length ?b4 = mtget_size small_mtget
        \<and> avail ?e4 = CHR ''A'' # dec_int (int (mtget_size small_mtget)) @ NL # ?b4 @ []"
    by (simp add: sz d) (simp add: small_mtget_def)
  with t [of ?e4] c4 have "\<exists>buf' s'. rmt_ioctl small_mtget (session ?e4) 0 (MTIOCGET ''....'')
                            = (0, MTIOCGET buf', s') \<and> buf' = ?b4"
    by blast
  then have r4: "fst (snd (rmt_ioctl small_mtget (session ?e4) 0 (MTIOCGET ''....'')))
       = MTIOCGET ?b4" by auto
  from con [of ?e1] l g1 r0 a1 r1 con [of ?e2] g2 r2 con [of ?e5] a5 r5
    con [of ?e3] c3 r3 con [of ?e4] c4 r4
  show ?thesis by blast
qed

text \<open>
  C7 as stated fails: the reported count \<open>-5\<close> is not the size of the structure, and
  the connection is not shut down: both table entries and both descriptors are as they
  were.
\<close>

theorem rmt_ioctl_negative_count_no_shutdown:
  "fst (rmt_ioctl small_mtget (session [Data (''A-5'' @ [NL])]) 0 (MTIOCGET ''....'')) = -1
   \<and> \<not> (read_side (snd (snd (rmt_ioctl small_mtget (session [Data (''A-5'' @ [NL])]) 0
                                 (MTIOCGET ''....'')))) 0 = -1
         \<and> write_side (snd (snd (rmt_ioctl small_mtget (session [Data (''A-5'' @ [NL])]) 0
                                    (MTIOCGET ''....'')))) 0 = -1)
   \<and> fds (snd (snd (rmt_ioctl small_mtget (session [Data (''A-5'' @ [NL])]) 0
                       (MTIOCGET ''....'')))) 5 = Some (RdEnd [])
   \<and> fds (snd (snd (rmt_ioctl small_mtget (session [Data (''A-5'' @ [NL])]) 0
                       (MTIOCGET ''....'')))) 4 = Some (WrEnd ''S'' None)"
  by (simp add: rmt_ioctl_def eval_defs)

text \<open>
  C8 (as amended).  When the access mode of the flags value, \<open>oflags & O_ACCMODE\<close>, is
  none of \<open>O_RDONLY\<close>, \<open>O_RDWR\<close>, \<open>O_WRONLY\<close>, the encoder aborts.  Otherwise the
  argument is the decimal value, a space, and a symbolic form: the name of the access
  mode (the only one of the three names in it), then, joined with \<open>|\<close> and in the
  order of the encoder, the names of the flags it knows that share a bit with the
  value; the other flags are omitted.  The symbolic form denotes the access mode or-ed
  with the masks of the flags shown.  That is the flag set of the numeric form when the
  value is covered: it has no bit outside the access mode and the known flags, and
  every known flag that shares a bit with it lies within it.
\<close>

theorem encode_oflags_symbolic_form:
  "(oflags AND O_ACCMODE k \<noteq> O_RDONLY k \<and> oflags AND O_ACCMODE k \<noteq> O_RDWR k
      \<and> oflags AND O_ACCMODE k \<noteq> O_WRONLY k \<longrightarrow>
      encode_oflags k oflags = Inl Abort)
   \<and> (oflags AND O_ACCMODE k = O_RDONLY k \<or> oflags AND O_ACCMODE k = O_RDWR k
      \<or> oflags AND O_ACCMODE k = O_WRONLY k \<longrightarrow>
      (\<exists>acc. (acc, oflags AND O_ACCMODE k) \<in> set (access_modes k)
          \<and> encode_oflags k oflags
              = Inr (dec_int oflags @ '' '' @ join_bar (acc # shown_flags k oflags))
          \<and> set (shown_flags k oflags) \<inter> {''O_RDONLY'', ''O_RDWR'', ''O_WRONLY''} = {}
          \<and> denotation k (join_bar (acc # shown_flags k oflags))
              = Some ((oflags AND O_ACCMODE k) OR shown_mask k oflags)
          \<and> (covered k oflags \<longrightarrow>
                denotation k (join_bar (acc # shown_flags k oflags)) = Some oflags)))"
proof (intro conjI impI)
  assume "oflags AND O_ACCMODE k \<noteq> O_RDONLY k \<and> oflags AND O_ACCMODE k \<noteq> O_RDWR k
      \<and> oflags AND O_ACCMODE k \<noteq> O_WRONLY k"
  then show "encode_oflags k oflags = Inl Abort" by (simp add: encode_oflags_table)
next
  assume m: "oflags AND O_ACCMODE k = O_RDONLY k \<or> oflags AND O_ACCMODE k = O_RDWR k
      \<or> oflags AND O_ACCMODE k = O_WRONLY k"
  define acc where "acc = (if oflags AND O_ACCMODE k = O_RDONLY k then ''O_RDONLY''
                           else if oflags AND O_ACCMODE k = O_RDWR k then ''O_RDWR''
                           else ''O_WRONLY'')"
  have a: "(acc, oflags AND O_ACCMODE k) \<in> set (access_modes k)"
    using m by (auto simp: acc_def access_modes_def)
  have e: "encode_oflags k oflags
              = Inr (dec_int oflags @ '' '' @ join_bar (acc # shown_flags k oflags))"
    using m by (auto simp: acc_def encode_oflags_table)
  have "set (shown_flags k oflags) \<subseteq> fst ` set (oflag_table k)"
    by (auto simp: shown_flags_def)
  moreover have "fst ` set (oflag_table k) \<inter> {''O_RDONLY'', ''O_RDWR'', ''O_WRONLY''} = {}"
    by (simp add: oflag_table_def)
  ultimately have n: "set (shown_flags k oflags) \<inter> {''O_RDONLY'', ''O_RDWR'', ''O_WRONLY''} = {}"
    by blast
  note d = denotation_shown [OF a, of oflags]
  have c: "covered k oflags \<longrightarrow>
             denotation k (join_bar (acc # shown_flags k oflags)) = Some oflags"
    using d covered_value [of k oflags] by simp
  from a e n d c
  show "\<exists>acc. (acc, oflags AND O_ACCMODE k) \<in> set (access_modes k)
          \<and> encode_oflags k oflags
              = Inr (dec_int oflags @ '' '' @ join_bar (acc # shown_flags k oflags))
          \<and> set (shown_flags k oflags) \<inter> {''O_RDONLY'', ''O_RDWR'', ''O_WRONLY''} = {}
          \<and> denotation k (join_bar (acc # shown_flags k oflags))
              = Some ((oflags AND O_ACCMODE k) OR shown_mask k oflags)
          \<and> (covered k oflags \<longrightarrow>
                denotation k (join_bar (acc # shown_flags k oflags)) = Some oflags)"
    by blast
qed

text \<open>
  C8, an instance.  The same on GNU/Linux: the value 3 has no access mode and aborts; the value 578,
  \<open>O_RDWR|O_CREAT|O_TRUNC\<close>, is covered, and its argument is
  \<open>578 O_RDWR|O_CREAT|O_TRUNC\<close>, whose symbolic form denotes 578.  And opening
  \<open>user@h:/dev/tape\<close> with \<open>O_RDONLY\<close> and bias 128 puts \<open>O/dev/tape\n0 O_RDONLY\n\<close> on
  the wire and returns 128 after the reply \<open>A0\<close>.
\<close>

theorem encode_oflags_symbolic_form_witness:
  "(3::int) AND O_ACCMODE linux_oflags \<noteq> O_RDONLY linux_oflags
   \<and> (3::int) AND O_ACCMODE linux_oflags \<noteq> O_RDWR linux_oflags
   \<and> (3::int) AND O_ACCMODE linux_oflags \<noteq> O_WRONLY linux_oflags
   \<and> encode_oflags linux_oflags 3 = Inl Abort
   \<and> (578::int) AND O_ACCMODE linux_oflags = O_RDWR linux_oflags
   \<and> covered linux_oflags 578
   \<and> encode_oflags linux_oflags 578 = Inr ''578 O_RDWR|O_CREAT|O_TRUNC''
   \<and> denotation linux_oflags ''O_RDWR|O_CREAT|O_TRUNC'' = Some 578
   \<and> (\<exists>s'. rmt_open linux_oflags (open_ok [Data (''A0'' @ [NL])]) init_state
               ''user@h:/dev/tape'' 0 128 (Some ''/usr/bin/rsh'') = Inr (128, s')
           \<and> wire s' 0 = ''O/dev/tape'' @ [NL] @ ''0 O_RDONLY'' @ [NL])"
proof -
  have a3: "(3::int) AND O_ACCMODE linux_oflags \<noteq> O_RDONLY linux_oflags
   \<and> (3::int) AND O_ACCMODE linux_oflags \<noteq> O_RDWR linux_oflags
   \<and> (3::int) AND O_ACCMODE linux_oflags \<noteq> O_WRONLY linux_oflags"
    by (simp add: linux_oflags_def)
  with encode_oflags_symbolic_form [of 3 linux_oflags]
  have r3: "encode_oflags linux_oflags 3 = Inl Abort" by blast
  have m: "(578::int) AND O_ACCMODE linux_oflags = O_RDWR linux_oflags"
    by (simp add: linux_oflags_def)
  have c: "covered linux_oflags 578"
    by (simp add: covered_def oflag_table_def linux_oflags_def)
  from encode_oflags_symbolic_form [of 578 linux_oflags] m c obtain acc where
    acc: "(acc, 578 AND O_ACCMODE linux_oflags) \<in> set (access_modes linux_oflags)"
    and e: "encode_oflags linux_oflags 578
              = Inr (dec_int 578 @ '' '' @ join_bar (acc # shown_flags linux_oflags 578))"
    and d: "denotation linux_oflags (join_bar (acc # shown_flags linux_oflags 578)) = Some 578"
    by blast
  from acc have "acc = ''O_RDWR''"
    by (simp add: access_modes_def linux_oflags_def)
  moreover have "shown_flags linux_oflags 578 = [''O_CREAT'', ''O_TRUNC'']"
    by (simp add: shown_flags_def shown_def oflag_table_def linux_oflags_def)
  moreover have "dec_int 578 = ''578''"
    by (simp add: dec_int_def dec_nat.simps digit_char_def)
  ultimately have r: "encode_oflags linux_oflags 578 = Inr ''578 O_RDWR|O_CREAT|O_TRUNC''"
    "denotation linux_oflags ''O_RDWR|O_CREAT|O_TRUNC'' = Some 578"
    using e d by simp_all
  have w: "\<exists>s'. rmt_open linux_oflags (open_ok [Data (''A0'' @ [NL])]) init_state
               ''user@h:/dev/tape'' 0 128 (Some ''/usr/bin/rsh'') = Inr (128, s')
           \<and> wire s' 0 = ''O/dev/tape'' @ [NL] @ ''0 O_RDONLY'' @ [NL]"
    by (simp add: rmt_open_def find_unused.simps split_file_name.simps init_state_def open_ok_def
        MAXUNIT_def cstr_at_def wire_def encode_oflags_def strcat_if_def linux_oflags_def Let_def
        dec_int_def dec_nat.simps digit_char_def eval_defs)
  from a3 r3 m c r w show ?thesis by blast
qed

text \<open>
  C8 as stated fails on GNU/Linux.  The value 4096 is \<open>O_RDONLY|O_DSYNC\<close>; its
  symbolic form is \<open>O_RDONLY|O_DSYNC|O_RSYNC|O_SYNC\<close>, since \<open>O_SYNC\<close> and \<open>O_RSYNC\<close>
  share a bit with it, and that form denotes 1052672.  The value 524288 is
  \<open>O_RDONLY|O_CLOEXEC\<close>; the encoder does not know \<open>O_CLOEXEC\<close>, the symbolic form is
  \<open>O_RDONLY\<close> and denotes 0.
\<close>

theorem encode_oflags_symbolic_differs:
  "encode_oflags linux_oflags 4096 = Inr ''4096 O_RDONLY|O_DSYNC|O_RSYNC|O_SYNC''
   \<and> denotation linux_oflags ''O_RDONLY|O_DSYNC|O_RSYNC|O_SYNC'' = Some 1052672
   \<and> denotation linux_oflags ''O_RDONLY|O_DSYNC|O_RSYNC|O_SYNC'' \<noteq> Some 4096
   \<and> encode_oflags linux_oflags 524288 = Inr ''524288 O_RDONLY''
   \<and> denotation linux_oflags ''O_RDONLY'' = Some 0
   \<and> denotation linux_oflags ''O_RDONLY'' \<noteq> Some 524288"
  by (simp add: encode_oflags_def strcat_if_def Let_def dec_int_def dec_nat.simps digit_char_def
      denotation_def symbol_value_def access_modes_def oflag_table_def linux_oflags_def)

text \<open>
  C9.  When the reply to a read command is a line whose first byte after any spaces is
  \<open>E\<close>, \<open>rmt_read\<close> returns \<open>-1\<close> with errno \<open>EIO\<close>, whatever errno the line carries,
  and the connection is shut down: both table entries are \<open>-1\<close> and both descriptors
  of the connection are closed.  The caller's buffer is not touched.
\<close>

theorem rmt_read_error_reply_shuts_down:
  assumes "connected s h evs"
    and "avail evs = replicate n (CHR '' '') @ CHR ''E'' # txt @ NL # rest"
    and "NL \<notin> set txt" and "n + Suc (length txt) < COMMAND_BUFFER_SIZE"
  shows "fst (rmt_read s h buffer len) = -1
       \<and> fst (snd (rmt_read s h buffer len)) = buffer
       \<and> errno (snd (snd (rmt_read s h buffer len))) = EIO
       \<and> read_side (snd (snd (rmt_read s h buffer len))) h = -1
       \<and> write_side (snd (snd (rmt_read s h buffer len))) h = -1
       \<and> fds (snd (snd (rmt_read s h buffer len))) (read_side s h) = None
       \<and> fds (snd (snd (rmt_read s h buffer len))) (write_side s h) = None"
proof -
  from assms(1) obtain sent where w: "fds s (write_side s h) = Some (WrEnd sent None)"
    and rd: "fds s (read_side s h) = Some (RdEnd evs)"
    and ne: "read_side s h \<noteq> write_side s h"
    and hl: "h < length (from_remote s)" "h < length (to_remote s)"
    by (rule connectedE)
  let ?cmd = "''R'' @ dec_int len @ [NL]"
  let ?s1 = "s\<lparr>fds := (fds s)(write_side s h \<mapsto> WrEnd (sent @ ?cmd) None)\<rparr>"
  have c: "do_command s h ?cmd = (0, ?s1)" by (rule do_command_sent [OF w])
  have "fds ?s1 (read_side ?s1 h) = Some (RdEnd evs)" using rd ne by simp
  from get_status_string_E [OF this assms(2,3,4)] have "fst (get_status ?s1 h) = -1"
    by (rule get_status_None)
  then obtain s2 where g: "get_status ?s1 h = (-1, s2)"
    by (cases "get_status ?s1 h") auto
  have "h < length (from_remote ?s1)" "h < length (to_remote ?s1)" using hl by simp_all
  from get_status_then_shutdown [OF this g, of EIO] c g show ?thesis
    by (simp add: rmt_read_def)
qed

text \<open>
  C9, an instance.  The same for the reply \<open>E13\nPermission denied\n\<close> to a read of 100 bytes on the
  open connection 0: the errno is \<open>EIO\<close>, not 13, and the descriptors 5 and 4 are closed.
\<close>

theorem rmt_read_error_reply_shuts_down_witness:
  "connected (session [Data (''E13'' @ [NL] @ ''Permission denied'' @ [NL])]) 0
     [Data (''E13'' @ [NL] @ ''Permission denied'' @ [NL])]
   \<and> avail [Data (''E13'' @ [NL] @ ''Permission denied'' @ [NL])]
       = replicate 0 (CHR '' '') @ CHR ''E'' # ''13'' @ NL # (''Permission denied'' @ [NL])
   \<and> NL \<notin> set ''13'' \<and> 0 + Suc (length ''13'') < COMMAND_BUFFER_SIZE
   \<and> fst (rmt_read (session [Data (''E13'' @ [NL] @ ''Permission denied'' @ [NL])]) 0 ''xxxx'' 100) = -1
   \<and> errno (snd (snd (rmt_read (session [Data (''E13'' @ [NL] @ ''Permission denied'' @ [NL])])
                          0 ''xxxx'' 100))) = EIO
   \<and> read_side (snd (snd (rmt_read (session [Data (''E13'' @ [NL] @ ''Permission denied'' @ [NL])])
                              0 ''xxxx'' 100))) 0 = -1
   \<and> write_side (snd (snd (rmt_read (session [Data (''E13'' @ [NL] @ ''Permission denied'' @ [NL])])
                               0 ''xxxx'' 100))) 0 = -1
   \<and> fds (snd (snd (rmt_read (session [Data (''E13'' @ [NL] @ ''Permission denied'' @ [NL])])
                        0 ''xxxx'' 100))) 5 = None
   \<and> fds (snd (snd (rmt_read (session [Data (''E13'' @ [NL] @ ''Permission denied'' @ [NL])])
                        0 ''xxxx'' 100))) 4 = None"
proof -
  let ?evs = "[Data (''E13'' @ [NL] @ ''Permission denied'' @ [NL])]"
  have a: "connected (session ?evs) 0 ?evs"
    by (simp add: connected_def session_def read_side_def write_side_def)
  have b: "avail ?evs = replicate 0 (CHR '' '') @ CHR ''E'' # ''13'' @ NL # (''Permission denied'' @ [NL])"
    by simp
  have c: "NL \<notin> set ''13''" by (simp add: NL_def)
  have d: "0 + Suc (length ''13'') < COMMAND_BUFFER_SIZE" by (simp add: COMMAND_BUFFER_SIZE_def)
  have sd: "read_side (session ?evs) 0 = 5" "write_side (session ?evs) 0 = 4"
    by (simp_all add: session_def read_side_def write_side_def)
  note t = rmt_read_error_reply_shuts_down [OF a b c d, of "''xxxx''" 100]
  from t have
    "fds (snd (snd (rmt_read (session ?evs) 0 ''xxxx'' 100))) (read_side (session ?evs) 0) = None"
    "fds (snd (snd (rmt_read (session ?evs) 0 ''xxxx'' 100))) (write_side (session ?evs) 0) = None"
    by blast+
  then have e: "fds (snd (snd (rmt_read (session ?evs) 0 ''xxxx'' 100))) 5 = None"
    "fds (snd (snd (rmt_read (session ?evs) 0 ''xxxx'' 100))) 4 = None"
    unfolding sd by this+
  from t a b c d e show ?thesis by blast
qed

text \<open>
  C10.  With a \<open>whence\<close> other than \<open>SEEK_SET\<close>, \<open>SEEK_CUR\<close> and \<open>SEEK_END\<close>,
  \<open>rmt_lseek\<close> ends in \<open>abort ()\<close>: it does not return, and the abort comes before the
  command is built or sent, in the state in which the call began, so nothing has been
  written to the connection and nothing read from it.  With one of the three it cannot abort: it returns, and the
  command it sends is \<open>L\<close>, then 0, 1 or 2 for \<open>SEEK_SET\<close>, \<open>SEEK_CUR\<close>, \<open>SEEK_END\<close>,
  a newline, the offset and a newline; on an open connection these bytes are added to
  the wire and the result is the offset status that follows.
\<close>

theorem rmt_lseek_whence:
  "(whence \<noteq> SEEK_SET \<and> whence \<noteq> SEEK_CUR \<and> whence \<noteq> SEEK_END \<longrightarrow>
      rmt_lseek s h offset whence = Inl (Abort, s))
   \<and> (whence = SEEK_SET \<or> whence = SEEK_CUR \<or> whence = SEEK_END \<longrightarrow>
      (\<exists>r s'. rmt_lseek s h offset whence = Inr (r, s'))
      \<and> rmt_lseek s h offset whence
          = (case do_command s h
                    (''L'' @ dec_int (if whence = SEEK_SET then 0 else if whence = SEEK_CUR then 1 else 2)
                       @ [NL] @ dec_int offset @ [NL]) of
               (r, s1) \<Rightarrow> if r = -1 then Inr (-1, s1) else Inr (get_status_off s1 h))
      \<and> (connected s h evs \<longrightarrow>
           (\<exists>s1. wire s1 h
                    = wire s h @ ''L''
                        @ dec_int (if whence = SEEK_SET then 0 else if whence = SEEK_CUR then 1 else 2)
                        @ [NL] @ dec_int offset @ [NL]
                \<and> rmt_lseek s h offset whence = Inr (get_status_off s1 h))))"
proof (intro conjI impI)
  assume "whence \<noteq> SEEK_SET \<and> whence \<noteq> SEEK_CUR \<and> whence \<noteq> SEEK_END"
  then show "rmt_lseek s h offset whence = Inl (Abort, s)"
    by (simp add: rmt_lseek_def seek_whence_def)
next
  assume w: "whence = SEEK_SET \<or> whence = SEEK_CUR \<or> whence = SEEK_END"
  let ?w = "if whence = SEEK_SET then 0 else if whence = SEEK_CUR then (1::int) else 2"
  let ?cmd = "''L'' @ dec_int ?w @ [NL] @ dec_int offset @ [NL]"
  from w have sw: "seek_whence whence = Inr ?w"
    by (auto simp: seek_whence_def SEEK_SET_def SEEK_CUR_def SEEK_END_def)
  then show eq: "rmt_lseek s h offset whence
          = (case do_command s h ?cmd of
               (r, s1) \<Rightarrow> if r = -1 then Inr (-1, s1) else Inr (get_status_off s1 h))"
    by (simp add: rmt_lseek_def)
  show "\<exists>r s'. rmt_lseek s h offset whence = Inr (r, s')"
    unfolding eq
    by (cases "do_command s h ?cmd"; cases "get_status_off (snd (do_command s h ?cmd)) h") auto
  assume "connected s h evs"
  from do_command_wire [OF this, of ?cmd] obtain s1 where
    "do_command s h ?cmd = (0, s1)" "wire s1 h = wire s h @ ?cmd" by blast
  then show "\<exists>s1. wire s1 h = wire s h @ ?cmd
                \<and> rmt_lseek s h offset whence = Inr (get_status_off s1 h)"
    unfolding eq by (intro exI [of _ s1]) simp
qed

text \<open>
  C10, an instance.  The same with \<open>whence = 7\<close>, where the wire stays empty, and for a seek to offset 1024 from the current position
  on the open connection 0: \<open>L1\n1024\n\<close> goes on the wire and the reply \<open>A2048\<close> is
  the result.
\<close>

theorem rmt_lseek_whence_witness:
  "(7::int) \<noteq> SEEK_SET \<and> (7::int) \<noteq> SEEK_CUR \<and> (7::int) \<noteq> SEEK_END
   \<and> rmt_lseek (session [Data (''A2048'' @ [NL])]) 0 1024 7
       = Inl (Abort, session [Data (''A2048'' @ [NL])])
   \<and> wire (session [Data (''A2048'' @ [NL])]) 0 = []
   \<and> connected (session [Data (''A2048'' @ [NL])]) 0 [Data (''A2048'' @ [NL])]
   \<and> (\<exists>s1. wire s1 0 = ''L1'' @ [NL] @ ''1024'' @ [NL]
           \<and> rmt_lseek (session [Data (''A2048'' @ [NL])]) 0 1024 SEEK_CUR
               = Inr (get_status_off s1 0))
   \<and> (\<exists>s'. rmt_lseek (session [Data (''A2048'' @ [NL])]) 0 1024 SEEK_CUR = Inr (2048, s'))"
proof -
  let ?s = "session [Data (''A2048'' @ [NL])]"
  have a: "(7::int) \<noteq> SEEK_SET \<and> (7::int) \<noteq> SEEK_CUR \<and> (7::int) \<noteq> SEEK_END"
    by (simp add: SEEK_SET_def SEEK_CUR_def SEEK_END_def)
  with rmt_lseek_whence [of 7 ?s 0 1024 "[Data (''A2048'' @ [NL])]"]
  have r1: "rmt_lseek ?s 0 1024 7 = Inl (Abort, ?s)" by blast
  have c: "connected ?s 0 [Data (''A2048'' @ [NL])]"
    by (simp add: connected_def session_def read_side_def write_side_def)
  have d: "dec_int 1 = ''1''" "dec_int 1024 = ''1024''"
    by (simp_all add: dec_int_def dec_nat.simps digit_char_def)
  have w0: "wire (session evs) 0 = []" for evs
    by (simp add: wire_def session_def write_side_def)
  from rmt_lseek_whence [of SEEK_CUR ?s 0 1024 "[Data (''A2048'' @ [NL])]"] c
  have "\<exists>s1. wire s1 0 = wire ?s 0 @ ''L''
                  @ dec_int (if SEEK_CUR = SEEK_SET then 0 else if SEEK_CUR = SEEK_CUR then 1 else 2)
                  @ [NL] @ dec_int 1024 @ [NL]
             \<and> rmt_lseek ?s 0 1024 SEEK_CUR = Inr (get_status_off s1 0)"
    by blast
  then have r2: "\<exists>s1. wire s1 0 = ''L1'' @ [NL] @ ''1024'' @ [NL]
             \<and> rmt_lseek ?s 0 1024 SEEK_CUR = Inr (get_status_off s1 0)"
    by (simp add: w0 d SEEK_SET_def SEEK_CUR_def)
  have r3: "\<exists>s'. rmt_lseek ?s 0 1024 SEEK_CUR = Inr (2048, s')"
    by (simp add: rmt_lseek_def seek_whence_def SEEK_SET_def SEEK_CUR_def get_status_off_def
        has_digits_def Let_def d eval_defs)
  from a r1 w0 [of "[Data (''A2048'' @ [NL])]"] c r2 r3 show ?thesis by blast
qed

end
